theory Spec2Isabelle
  imports Main "HOL-Library.Word" "HOL-Library.Signed_Division" "HOL-Library.Multiset"
    "HOL-Library.Product_Lexorder"
begin

section \<open>The Gather kernel of onnxruntime/core/providers/cpu/tensor/gather.cc\<close>

text \<open>
  The development embeds the three functions of gather.cc:
  \<^verbatim>\<open>GatherBase::PrepareForCompute\<close>, \<^verbatim>\<open>GatherCopyData\<close> and \<^verbatim>\<open>Gather::Compute\<close>.
  64-bit quantities (\<^verbatim>\<open>int64_t\<close>, \<^verbatim>\<open>size_t\<close>, \<^verbatim>\<open>ptrdiff_t\<close>) are modelled by
  \<^typ>\<open>int\<close>: signed overflow is undefined in C++ and the sizes of buffers that exist fit.
  The one conversion to a narrower type in the file, \<^verbatim>\<open>static_cast<int>\<close> in the chunk
  worker, is modelled through \<^typ>\<open>32 word\<close>. A computation whose C++ behaviour is
  undefined (an access outside a buffer, a division by zero) has the value \<open>None\<close>.
\<close>

subsection \<open>Data model\<close>

type_synonym byte = "8 word"

text \<open>\<^verbatim>\<open>TensorShape\<close>: the dimensions, in order.\<close>

type_synonym TensorShape = "int list"

text \<open>
  Modelled from the spec: \<^verbatim>\<open>TensorShape::Size\<close>, \<^verbatim>\<open>SizeFromDimension\<close> and
  \<^verbatim>\<open>SizeToDimension\<close> (tensor_shape.h is not part of the sources): the product of all
  dimensions, of the dimensions from \<open>k\<close> on, and of the dimensions before \<open>k\<close>.
\<close>

definition Size :: "TensorShape \<Rightarrow> int" where
  "Size shp = prod_list shp"

definition SizeFromDimension :: "TensorShape \<Rightarrow> int \<Rightarrow> int" where
  "SizeFromDimension shp k = prod_list (drop (nat k) shp)"

definition SizeToDimension :: "TensorShape \<Rightarrow> int \<Rightarrow> int" where
  "SizeToDimension shp k = prod_list (take (nat k) shp)"

definition NumDimensions :: "TensorShape \<Rightarrow> int" where
  "NumDimensions shp = int (length shp)"

text \<open>
  Modelled from the spec: the element type descriptor of a tensor (data_types.h is not part
  of the sources). \<open>Size_of\<close> is \<^verbatim>\<open>DataType()->Size()\<close>, the byte width of one element;
  for \<open>String\<close> it is \<^verbatim>\<open>sizeof(std::string)\<close>, 32 with libstdc++ on a 64-bit target.
\<close>

datatype elem_type =
  Float | UInt8 | Int8 | UInt16 | Int16 | Int32 | Int64 | String | Bool
  | Float16 | Double | UInt32 | UInt64 | BFloat16

fun Size_of :: "elem_type \<Rightarrow> int" where
  "Size_of Float = 4"
| "Size_of UInt8 = 1"
| "Size_of Int8 = 1"
| "Size_of UInt16 = 2"
| "Size_of Int16 = 2"
| "Size_of Int32 = 4"
| "Size_of Int64 = 8"
| "Size_of String = 32"
| "Size_of Bool = 1"
| "Size_of Float16 = 2"
| "Size_of Double = 8"
| "Size_of UInt32 = 4"
| "Size_of UInt64 = 8"
| "Size_of BFloat16 = 2"

text \<open>
  The memory of a tensor. \<open>Raw\<close> is the buffer of a fixed-width tensor as \<^verbatim>\<open>DataRaw\<close> gives
  it, byte by byte. \<open>Strs\<close> is the buffer of a string tensor: an array of
  \<^verbatim>\<open>std::string\<close> objects, one list entry per object. \<open>I32\<close> and \<open>I64\<close> are the buffer
  of an index tensor as \<^verbatim>\<open>DataAsSpan<int32_t>\<close> and \<^verbatim>\<open>DataAsSpan<int64_t>\<close> give it.
\<close>

datatype buffer =
  Raw "byte list"
  | Strs "string list"
  | I32 "32 word list"
  | I64 "64 word list"

record Tensor =
  Shape :: TensorShape
  DataType :: elem_type
  Data :: buffer

definition IsDataTypeString :: "Tensor \<Rightarrow> bool" where
  "IsDataTypeString t = (DataType t = String)"

definition IsDataType :: "elem_type \<Rightarrow> Tensor \<Rightarrow> bool" where
  "IsDataType ty t = (DataType t = ty)"

text \<open>\<^verbatim>\<open>DataAsSpan<T>\<close> succeeds only on a tensor of element type \<open>T\<close>.\<close>

definition DataAsSpan_int32 :: "Tensor \<Rightarrow> 32 word list option" where
  "DataAsSpan_int32 t =
     (case Data t of I32 xs \<Rightarrow> if DataType t = Int32 then Some xs else None | _ \<Rightarrow> None)"

definition DataAsSpan_int64 :: "Tensor \<Rightarrow> 64 word list option" where
  "DataAsSpan_int64 t =
     (case Data t of I64 xs \<Rightarrow> if DataType t = Int64 then Some xs else None | _ \<Rightarrow> None)"

text \<open>\<^verbatim>\<open>Status\<close>, with the two codes that gather.cc produces.\<close>

datatype StatusCode = INVALID_ARGUMENT | NOT_IMPLEMENTED

datatype Status = OK | Failed StatusCode string

text \<open>
  The kernel object holds the attribute \<^verbatim>\<open>axis_\<close> (field \<open>axis_attr\<close>). The context
  gives the two inputs, the memory that the host hands out for output 0
  (\<^verbatim>\<open>context->Output(0, shape)\<close> allocates it; its content before the kernel writes is
  whatever the host left there), and the operator thread pool. The thread pool is
  represented by the chunks it will run, in the order in which they take effect.
\<close>

record Gather =
  axis_attr :: int

record OpKernelContext =
  Input0 :: Tensor
  Input1 :: Tensor
  OutputBuf :: buffer
  OperatorThreadPool :: "(int \<times> int) list"

record Prepare =
  input_tensor :: Tensor
  indices_tensor :: Tensor
  output_tensor :: Tensor
  axis :: int

definition Output :: "OpKernelContext \<Rightarrow> TensorShape \<Rightarrow> Tensor" where
  "Output ctx shp = \<lparr>Shape = shp, DataType = DataType (Input0 ctx), Data = OutputBuf ctx\<rparr>"

subsection \<open>PrepareForCompute\<close>

text \<open>
  Modelled from the spec: \<^verbatim>\<open>HandleNegativeAxis\<close> (providers/common.h is not part of the
  sources) normalizes the axis attribute against the rank and fails with InvalidArgument
  when the attribute is outside \<open>[-rank, rank)\<close>. The spec gives no message text.
\<close>

definition HandleNegativeAxis :: "int \<Rightarrow> int \<Rightarrow> Status + int" where
  "HandleNegativeAxis ax tensor_rank =
     (if ax < - tensor_rank \<or> tensor_rank \<le> ax then Inl (Failed INVALID_ARGUMENT [])
      else Inr (if ax < 0 then ax + tensor_rank else ax))"

text \<open>
  \<^verbatim>\<open>for (int64_t i = lo; i < hi; ++i) shape.push_back(input_data_shape[i]);\<close>
  Both index loops of PrepareForCompute have this form. All reads are inside the shape,
  since the axis has passed \<open>HandleNegativeAxis\<close>.
\<close>

function push_back_dims :: "TensorShape \<Rightarrow> int \<Rightarrow> int \<Rightarrow> int list \<Rightarrow> int list" where
  "push_back_dims input_data_shape i hi shape =
     (if i < hi
      then push_back_dims input_data_shape (i + 1) hi (shape @ [input_data_shape ! nat i])
      else shape)"
  by pat_completeness auto
termination
  by (relation "measure (\<lambda>(s, i, hi, acc). nat (hi - i))") auto

declare push_back_dims.simps [simp del]

text \<open>\<^verbatim>\<open>for (const auto dim : indices_shape.GetDims()) shape.push_back(dim);\<close>\<close>

fun push_back_all :: "int list \<Rightarrow> int list \<Rightarrow> int list" where
  "push_back_all [] shape = shape"
| "push_back_all (dim # dims) shape = push_back_all dims (shape @ [dim])"

definition PrepareForCompute :: "Gather \<Rightarrow> OpKernelContext \<Rightarrow> Status + Prepare" where
  "PrepareForCompute k ctx =
     (let input_data_shape = Shape (Input0 ctx);
          indices_shape = Shape (Input1 ctx);
          input_rank = NumDimensions input_data_shape
      in case HandleNegativeAxis (axis_attr k) input_rank of
           Inl st \<Rightarrow> Inl st
         | Inr p_axis \<Rightarrow>
             (let shape = [];
                  shape = push_back_dims input_data_shape 0 p_axis shape;
                  shape = push_back_all indices_shape shape;
                  shape = push_back_dims input_data_shape (p_axis + 1) input_rank shape
              in Inr \<lparr>input_tensor = Input0 ctx, indices_tensor = Input1 ctx,
                      output_tensor = Output ctx shape, axis = p_axis\<rparr>))"

subsection \<open>GatherCopyData\<close>

text \<open>
  \<^verbatim>\<open>ORT_MAKE_STATUS(ONNXRUNTIME, code, parts...)\<close> streams its parts into one message.
  An \<^verbatim>\<open>int64_t\<close> part is written in decimal, with a minus sign when negative.
\<close>

definition digit_char :: "nat \<Rightarrow> char" where
  "digit_char d = ''0123456789'' ! d"

function decimal :: "nat \<Rightarrow> string" where
  "decimal n = (if n < 10 then [digit_char n] else decimal (n div 10) @ [digit_char (n mod 10)])"
  by pat_completeness auto
termination
  by (relation "measure id") auto

declare decimal.simps [simp del]

definition MakeString_int64 :: "int \<Rightarrow> string" where
  "MakeString_int64 x = (if x < 0 then CHR ''-'' # decimal (nat (- x)) else decimal (nat x))"

definition ORT_MAKE_STATUS :: "StatusCode \<Rightarrow> string list \<Rightarrow> Status" where
  "ORT_MAKE_STATUS code parts = Failed code (concat parts)"

text \<open>
  The validation loop of lines 65 to 72, from position \<open>i\<close> on. \<open>get_index\<close> is the
  closure that Compute passes; it has no value outside the span it reads.
\<close>

function check_indices :: "(int \<Rightarrow> int option) \<Rightarrow> int \<Rightarrow> int \<Rightarrow> int \<Rightarrow> Status option" where
  "check_indices get_index N axis_dim_limit i =
     (if i < N then
        (case get_index i of
           None \<Rightarrow> None
         | Some idx \<Rightarrow>
             if idx < - axis_dim_limit \<or> idx \<ge> axis_dim_limit then
               Some (ORT_MAKE_STATUS INVALID_ARGUMENT
                 [''indices element out of data bounds, idx='', MakeString_int64 idx,
                  '' must be within the inclusive range ['', MakeString_int64 (- axis_dim_limit),
                  '','', MakeString_int64 (axis_dim_limit - 1), '']''])
             else check_indices get_index N axis_dim_limit (i + 1))
      else Some OK)"
  by pat_completeness auto
termination
  by (relation "measure (\<lambda>(g, N, lim, i). nat (N - i))") auto

declare check_indices.simps [simp del]

text \<open>
  \<^verbatim>\<open>memcpy(dst_base + dst_offset, src_base + src_offset, block_size)\<close> on byte buffers. The
  count is converted to \<^verbatim>\<open>size_t\<close>, so a negative one is out of every buffer.
\<close>

definition memcpy :: "byte list \<Rightarrow> int \<Rightarrow> byte list \<Rightarrow> int \<Rightarrow> int \<Rightarrow> byte list option" where
  "memcpy dst dst_offset src src_offset n =
     (if 0 \<le> n \<and> 0 \<le> dst_offset \<and> dst_offset + n \<le> int (length dst)
         \<and> 0 \<le> src_offset \<and> src_offset + n \<le> int (length src)
      then Some (take (nat dst_offset) dst @ take (nat n) (drop (nat src_offset) src)
                   @ drop (nat (dst_offset + n)) dst)
      else None)"

text \<open>
  The conversion of an \<^verbatim>\<open>int64_t\<close> to \<^verbatim>\<open>size_t\<close>, which \<^verbatim>\<open>dst_offset / element_bytes\<close>
  applies to its left operand (\<^verbatim>\<open>element_bytes\<close> is a \<^verbatim>\<open>size_t\<close>).
\<close>

definition to_size_t :: "int \<Rightarrow> int" where
  "to_size_t x = x mod 2 ^ 64"

text \<open>
  The closure \<^verbatim>\<open>lambda\<close> of lines 74 to 91: the copy of one gather unit. The variables
  it captures by reference come first, then its argument \<open>index\<close>, then the destination
  memory, which it returns updated. \<^verbatim>\<open>/\<close> and \<^verbatim>\<open>%\<close> on \<^verbatim>\<open>int64_t\<close> truncate towards
  zero (\<open>sdiv\<close>, \<open>smod\<close>) and are undefined for a zero divisor.
\<close>

definition lambda ::
  "(int \<Rightarrow> int option) \<Rightarrow> buffer \<Rightarrow> bool \<Rightarrow> int \<Rightarrow> int \<Rightarrow> int \<Rightarrow> int \<Rightarrow> int \<Rightarrow> int
     \<Rightarrow> int \<Rightarrow> buffer \<Rightarrow> buffer option" where
  "lambda get_index src_base is_string_type element_bytes block_size N data_batch_bytes
      gathered_batch_bytes axis_dim_limit index dst_base =
     (if N = 0 then None
      else
        let batch = index sdiv N;
            i = index smod N;
            src_offset_batch = batch * data_batch_bytes;
            dst_offset_batch = batch * gathered_batch_bytes
        in case get_index i of
             None \<Rightarrow> None
           | Some idx0 \<Rightarrow>
               let idx = (if idx0 < 0 then idx0 + axis_dim_limit else idx0);
                   src_offset = src_offset_batch + idx * block_size;
                   dst_offset = dst_offset_batch + i * block_size
               in if is_string_type then
                    (case (src_base, dst_base) of
                       (Strs src, Strs dst) \<Rightarrow>
                         if element_bytes = 0 then None
                         else
                           let d = to_size_t dst_offset div element_bytes;
                               s = to_size_t src_offset div element_bytes
                           in if d < int (length dst) \<and> s < int (length src)
                              then Some (Strs (dst[nat d := src ! nat s]))
                              else None
                     | _ \<Rightarrow> None)
                  else
                    (case (src_base, dst_base) of
                       (Raw src, Raw dst) \<Rightarrow>
                         map_option Raw (memcpy dst dst_offset src src_offset block_size)
                     | _ \<Rightarrow> None))"

text \<open>\<^verbatim>\<open>static_cast<int>\<close> of a \<^verbatim>\<open>ptrdiff_t\<close>: the value modulo \<open>2^32\<close>, read as signed.\<close>

definition static_cast_int :: "int \<Rightarrow> int" where
  "static_cast_int x = sint (word_of_int x :: 32 word)"

text \<open>
  The chunk worker of lines 94 to 98:
  \<^verbatim>\<open>for (int index = static_cast<int>(first), end = static_cast<int>(last); index < end; ++index) lambda(index);\<close>
  \<open>chunk_loop\<close> is the loop from the current \<open>index\<close>; \<open>++index\<close> cannot overflow, since
  \<open>index < end\<close> and \<open>end\<close> is an \<^verbatim>\<open>int\<close>. The state \<open>st\<close> is what the closure updates.
\<close>

function chunk_loop :: "(int \<Rightarrow> 's \<Rightarrow> 's option) \<Rightarrow> int \<Rightarrow> int \<Rightarrow> 's \<Rightarrow> 's option" where
  "chunk_loop lam index end st =
     (if index < end then
        (case lam index st of
           None \<Rightarrow> None
         | Some st' \<Rightarrow> chunk_loop lam (index + 1) end st')
      else Some st)"
  by pat_completeness auto
termination
  by (relation "measure (\<lambda>(lam, index, end, st). nat (end - index))") auto

declare chunk_loop.simps [simp del]

definition chunk_worker :: "(int \<Rightarrow> 's \<Rightarrow> 's option) \<Rightarrow> int \<Rightarrow> int \<Rightarrow> 's \<Rightarrow> 's option" where
  "chunk_worker lam first last' st =
     chunk_loop lam (static_cast_int first) (static_cast_int last') st"

text \<open>
  Modelled from the spec: \<^verbatim>\<open>concurrency::ThreadPool::TryParallelFor\<close> (threadpool.h is
  not part of the sources) splits the \<open>total'\<close> units into contiguous chunks and calls
  \<open>fn first last'\<close> on each chunk \<open>[first, last')\<close>, on the calling thread or on the pool.
  The pool \<open>tp\<close> is the list of the chunks in the order in which their effects land
  (chunks that run on different threads are represented by one of their serial orders);
  the cost argument only influences which chunks the pool chooses and is left out.
\<close>

fun TryParallelFor ::
  "(int \<times> int) list \<Rightarrow> int \<Rightarrow> (int \<Rightarrow> int \<Rightarrow> 's \<Rightarrow> 's option) \<Rightarrow> 's \<Rightarrow> 's option" where
  "TryParallelFor [] total' fn st = Some st"
| "TryParallelFor ((first, last') # tp) total' fn st =
     (case fn first last' st of
        None \<Rightarrow> None
      | Some st' \<Rightarrow> TryParallelFor tp total' fn st')"

text \<open>
  What the spec says of the chunks: they are contiguous, and together they are
  \<open>[0, total')\<close>. \<open>chain a b cs\<close>: the chunks \<open>cs\<close>, in this order, lead from \<open>a\<close> to \<open>b\<close>.
  A pool may run them in any order, and a chain is sorted, so \<open>chunks_of total' tp\<close> sorts.
  The sequential run is the single chunk \<open>[(0, total')]\<close>.
\<close>

fun chain :: "int \<Rightarrow> int \<Rightarrow> (int \<times> int) list \<Rightarrow> bool" where
  "chain a b [] = (a = b)"
| "chain a b ((first, last') # cs) = (first = a \<and> first \<le> last' \<and> chain last' b cs)"

definition chunks_of :: "int \<Rightarrow> (int \<times> int) list \<Rightarrow> bool" where
  "chunks_of total' tp = chain 0 total' (sort tp)"

definition GatherCopyData ::
  "(int \<Rightarrow> int option) \<Rightarrow> buffer \<Rightarrow> buffer \<Rightarrow> bool \<Rightarrow> int \<Rightarrow> int \<Rightarrow> int \<Rightarrow> int \<Rightarrow> int \<Rightarrow> int
     \<Rightarrow> TensorShape \<Rightarrow> int \<Rightarrow> (int \<times> int) list \<Rightarrow> (Status \<times> buffer) option" where
  "GatherCopyData get_index src_base dst_base is_string_type element_bytes block_size M N
      data_batch_bytes gathered_batch_bytes input_data_shape ax tp =
     (if ax < 0 \<or> int (length input_data_shape) \<le> ax then None
      else
        let axis_dim_limit = input_data_shape ! nat ax
        in case check_indices get_index N axis_dim_limit 0 of
             None \<Rightarrow> None
           | Some (Failed code msg) \<Rightarrow> Some (Failed code msg, dst_base)
           | Some OK \<Rightarrow>
               (case TryParallelFor tp (M * N)
                       (chunk_worker
                          (lambda get_index src_base is_string_type element_bytes block_size N
                             data_batch_bytes gathered_batch_bytes axis_dim_limit))
                       dst_base of
                  None \<Rightarrow> None
                | Some dst \<Rightarrow> Some (OK, dst)))"

subsection \<open>Compute\<close>

text \<open>
  The two closures that Compute passes as \<open>get_index\<close>: a read of the span of indices,
  widened to \<^verbatim>\<open>int64_t\<close>.
\<close>

definition get_index32 :: "32 word list \<Rightarrow> int \<Rightarrow> int option" where
  "get_index32 indices_data idx =
     (if 0 \<le> idx \<and> idx < int (length indices_data) then Some (sint (indices_data ! nat idx))
      else None)"

definition get_index64 :: "64 word list \<Rightarrow> int \<Rightarrow> int option" where
  "get_index64 indices_data idx =
     (if 0 \<le> idx \<and> idx < int (length indices_data) then Some (sint (indices_data ! nat idx))
      else None)"

text \<open>
  Compute returns the status and the content of the output memory when it returns. When
  PrepareForCompute fails there is no output tensor, and the memory of the host is as it
  was.
\<close>

definition Compute :: "Gather \<Rightarrow> OpKernelContext \<Rightarrow> (Status \<times> buffer) option" where
  "Compute k ctx =
     (case PrepareForCompute k ctx of
        Inl st \<Rightarrow> Some (st, OutputBuf ctx)
      | Inr p \<Rightarrow>
          let input_data_shape = Shape (input_tensor p);
              is_string_type = IsDataTypeString (input_tensor p);
              element_bytes = Size_of (DataType (input_tensor p));
              block = SizeFromDimension input_data_shape (axis p + 1);
              block_size = block * element_bytes;
              M = SizeToDimension input_data_shape (axis p);
              N = Size (Shape (indices_tensor p));
              data_batch_bytes = SizeFromDimension input_data_shape (axis p) * element_bytes;
              gathered_batch_bytes = N * block * element_bytes;
              src_base = Data (input_tensor p);
              dst_base = Data (output_tensor p);
              tp = OperatorThreadPool ctx
          in if IsDataType Int32 (indices_tensor p) then
               (case DataAsSpan_int32 (indices_tensor p) of
                  None \<Rightarrow> None
                | Some indices_data \<Rightarrow>
                    GatherCopyData (get_index32 indices_data) src_base dst_base is_string_type
                      element_bytes block_size M N data_batch_bytes gathered_batch_bytes
                      input_data_shape (axis p) tp)
             else if IsDataType Int64 (indices_tensor p) then
               (case DataAsSpan_int64 (indices_tensor p) of
                  None \<Rightarrow> None
                | Some indices_data \<Rightarrow>
                    GatherCopyData (get_index64 indices_data) src_base dst_base is_string_type
                      element_bytes block_size M N data_batch_bytes gathered_batch_bytes
                      input_data_shape (axis p) tp)
             else
               Some (ORT_MAKE_STATUS NOT_IMPLEMENTED
                       [''Type for Tind not supported yet in Gather.''], dst_base))"

subsection \<open>The units that a run executes\<close>

text \<open>
  \<open>run_units lam us st\<close> applies the closure to the units \<open>us\<close> in turn. \<open>units_of tp\<close>
  lists, chunk after chunk, the values that the loop variable \<^verbatim>\<open>index\<close> of the chunk
  worker takes. \<open>units_run\<close> runs TryParallelFor with a closure that only records its
  argument: the result is the list of the arguments the closure is called with.
\<close>

fun run_units :: "(int \<Rightarrow> 's \<Rightarrow> 's option) \<Rightarrow> int list \<Rightarrow> 's \<Rightarrow> 's option" where
  "run_units lam [] st = Some st"
| "run_units lam (u # us) st =
     (case lam u st of None \<Rightarrow> None | Some st' \<Rightarrow> run_units lam us st')"

definition units_of :: "(int \<times> int) list \<Rightarrow> int list" where
  "units_of tp =
     concat (map (\<lambda>(first, last'). [static_cast_int first..static_cast_int last' - 1]) tp)"

definition units_run :: "(int \<times> int) list \<Rightarrow> int \<Rightarrow> int list option" where
  "units_run tp total' =
     TryParallelFor tp total' (chunk_worker (\<lambda>index trace. Some (trace @ [index]))) []"

subsection \<open>Names for what Compute computes\<close>

text \<open>
  \<open>index_values\<close> is the content of an index tensor of a supported type, each index
  widened to \<^verbatim>\<open>int64_t\<close>, and \<open>get_value\<close> the read of such a list that both closures
  \<open>get_index32\<close> and \<open>get_index64\<close> perform. The other definitions name the local variables
  of Compute (and \<open>axis_dim_limit\<close> of GatherCopyData) as functions of the kernel and the
  context, for the statements below.
\<close>

definition index_values :: "Tensor \<Rightarrow> int list option" where
  "index_values t =
     (if IsDataType Int32 t then map_option (map sint) (DataAsSpan_int32 t)
      else if IsDataType Int64 t then map_option (map sint) (DataAsSpan_int64 t)
      else None)"

definition get_value :: "int list \<Rightarrow> int \<Rightarrow> int option" where
  "get_value xs i = (if 0 \<le> i \<and> i < int (length xs) then Some (xs ! nat i) else None)"

definition axis_of :: "Gather \<Rightarrow> OpKernelContext \<Rightarrow> int" where
  "axis_of k ctx =
     (if axis_attr k < 0 then axis_attr k + NumDimensions (Shape (Input0 ctx)) else axis_attr k)"

definition element_bytes_of :: "OpKernelContext \<Rightarrow> int" where
  "element_bytes_of ctx = Size_of (DataType (Input0 ctx))"

definition block_size_of :: "Gather \<Rightarrow> OpKernelContext \<Rightarrow> int" where
  "block_size_of k ctx =
     SizeFromDimension (Shape (Input0 ctx)) (axis_of k ctx + 1) * element_bytes_of ctx"

definition M_of :: "Gather \<Rightarrow> OpKernelContext \<Rightarrow> int" where
  "M_of k ctx = SizeToDimension (Shape (Input0 ctx)) (axis_of k ctx)"

definition N_of :: "OpKernelContext \<Rightarrow> int" where
  "N_of ctx = Size (Shape (Input1 ctx))"

definition data_batch_bytes_of :: "Gather \<Rightarrow> OpKernelContext \<Rightarrow> int" where
  "data_batch_bytes_of k ctx =
     SizeFromDimension (Shape (Input0 ctx)) (axis_of k ctx) * element_bytes_of ctx"

definition gathered_batch_bytes_of :: "Gather \<Rightarrow> OpKernelContext \<Rightarrow> int" where
  "gathered_batch_bytes_of k ctx =
     N_of ctx * SizeFromDimension (Shape (Input0 ctx)) (axis_of k ctx + 1) * element_bytes_of ctx"

definition axis_dim_limit_of :: "Gather \<Rightarrow> OpKernelContext \<Rightarrow> int" where
  "axis_dim_limit_of k ctx = Shape (Input0 ctx) ! nat (axis_of k ctx)"

text \<open>
  Two index closures that differ only by indices that are in range and resolve to the
  same position.
\<close>

definition same_resolved :: "int \<Rightarrow> (int \<Rightarrow> int option) \<Rightarrow> (int \<Rightarrow> int option) \<Rightarrow> bool" where
  "same_resolved lim g g' \<longleftrightarrow>
     (\<forall>i. g i = g' i
        \<or> (\<exists>a b. g i = Some a \<and> g' i = Some b \<and> - lim \<le> a \<and> a < lim \<and> - lim \<le> b \<and> b < lim
              \<and> (if a < 0 then a + lim else a) = (if b < 0 then b + lim else b)))"

subsection \<open>The output that the spec describes\<close>

text \<open>
  These definitions follow the words of the spec (section 4.3), not the code: the
  output byte at position \<open>p\<close> (for a string tensor: the output element, with the
  block size counted in elements) belongs to gather unit \<open>u = p / block_size_bytes\<close>, which
  decomposes into \<open>batch = u / N\<close> and \<open>i = u % N\<close>, and is the byte of the source at
  \<open>batch * data_batch_stride + resolve(i) * block_size_bytes\<close> plus the offset of \<open>p\<close> in
  its block, where \<open>data_batch_stride = dim * block_size_bytes\<close>. \<open>spec_output\<close> is the
  whole output, \<open>M * N * block_size_bytes\<close> bytes. The code is compared with them below.
\<close>

definition spec_resolve :: "int \<Rightarrow> int \<Rightarrow> int" where
  "spec_resolve dim idx = (if idx < 0 then idx + dim else idx)"

definition spec_output_byte :: "'a list \<Rightarrow> int list \<Rightarrow> int \<Rightarrow> int \<Rightarrow> int \<Rightarrow> int \<Rightarrow> 'a" where
  "spec_output_byte src xs dim N block_size_bytes p =
     (let u = p div block_size_bytes;
          batch = u div N;
          i = u mod N
      in src ! nat ((batch * dim + spec_resolve dim (xs ! nat i)) * block_size_bytes
                    + p mod block_size_bytes))"

definition spec_output :: "'a list \<Rightarrow> int list \<Rightarrow> int \<Rightarrow> int \<Rightarrow> int \<Rightarrow> int \<Rightarrow> 'a list" where
  "spec_output src xs dim M N block_size_bytes =
     map (\<lambda>p. spec_output_byte src xs dim N block_size_bytes (int p))
       [0..<nat (M * N * block_size_bytes)]"

subsection \<open>What the string branch writes\<close>

text \<open>
  \<open>block_of\<close> is the local \<open>block\<close> of Compute, the number of elements of a block.
  \<open>first_slots_output\<close> describes the output memory that a run over a string tensor is
  proved to leave (\<open>Compute_string\<close> below): the first element of every block is the
  selected string, and every other element is what the memory \<open>dst\<close> held before.
\<close>

definition block_of :: "Gather \<Rightarrow> OpKernelContext \<Rightarrow> int" where
  "block_of k ctx = SizeFromDimension (Shape (Input0 ctx)) (axis_of k ctx + 1)"

definition first_slots_output ::
  "string list \<Rightarrow> string list \<Rightarrow> int list \<Rightarrow> int \<Rightarrow> int \<Rightarrow> int \<Rightarrow> string list" where
  "first_slots_output src dst xs dim N block =
     map (\<lambda>p. if int p mod block = 0
              then let u = int p div block
                   in src ! nat ((u div N * dim + spec_resolve dim (xs ! nat (u mod N))) * block)
              else dst ! p)
       [0..<length dst]"

subsection \<open>Example inputs\<close>

text \<open>
  Scenario 4 of the spec: data of shape \<open>[2,3]\<close>, axis 1, indices \<open>[[0,1],[1,2]]\<close>,
  run as one chunk.
\<close>

definition scenario4 :: OpKernelContext where
  "scenario4 =
     \<lparr>Input0 = \<lparr>Shape = [2, 3], DataType = UInt8, Data = Raw [1, 2, 3, 4, 5, 6]\<rparr>,
      Input1 = \<lparr>Shape = [2, 2], DataType = Int64, Data = I64 [0, 1, 1, 2]\<rparr>,
      OutputBuf = Raw (replicate 8 0),
      OperatorThreadPool = [(0, 8)]\<rparr>"

text \<open>
  Two index tensors of unsupported element types over the same data, and an index tensor
  with no element.
\<close>

definition tind_int16 :: OpKernelContext where
  "tind_int16 =
     \<lparr>Input0 = \<lparr>Shape = [3], DataType = UInt8, Data = Raw [10, 20, 30]\<rparr>,
      Input1 = \<lparr>Shape = [1], DataType = Int16, Data = Raw [1, 0]\<rparr>,
      OutputBuf = Raw [0],
      OperatorThreadPool = [(0, 1)]\<rparr>"

definition tind_uint8 :: OpKernelContext where
  "tind_uint8 =
     \<lparr>Input0 = \<lparr>Shape = [3], DataType = UInt8, Data = Raw [10, 20, 30]\<rparr>,
      Input1 = \<lparr>Shape = [1], DataType = UInt8, Data = Raw [1]\<rparr>,
      OutputBuf = Raw [0],
      OperatorThreadPool = [(0, 1)]\<rparr>"

definition empty_indices :: OpKernelContext where
  "empty_indices =
     \<lparr>Input0 = \<lparr>Shape = [3], DataType = UInt8, Data = Raw [10, 20, 30]\<rparr>,
      Input1 = \<lparr>Shape = [0], DataType = Int64, Data = I64 []\<rparr>,
      OutputBuf = Raw [],
      OperatorThreadPool = [(0, 0)]\<rparr>"

text \<open>
  A string tensor of shape \<open>[2,2]\<close> gathered at row 1, a string tensor of shape \<open>[1,2]\<close>
  gathered with the identity indices, and a byte tensor of shape \<open>[2^31, 1]\<close> gathered
  along axis 1 with the identity indices \<open>[0]\<close>, so that \<open>M * N = 2^31\<close>.
\<close>

definition strings_2x2 :: OpKernelContext where
  "strings_2x2 =
     \<lparr>Input0 = \<lparr>Shape = [2, 2], DataType = String, Data = Strs [''a'', ''b'', ''c'', ''d'']\<rparr>,
      Input1 = \<lparr>Shape = [1], DataType = Int64, Data = I64 [1]\<rparr>,
      OutputBuf = Strs ['''', ''''],
      OperatorThreadPool = [(0, 1)]\<rparr>"

definition strings_identity :: OpKernelContext where
  "strings_identity =
     \<lparr>Input0 = \<lparr>Shape = [1, 2], DataType = String, Data = Strs [''a'', ''b'']\<rparr>,
      Input1 = \<lparr>Shape = [1], DataType = Int64, Data = I64 [0]\<rparr>,
      OutputBuf = Strs ['''', ''''],
      OperatorThreadPool = [(0, 1)]\<rparr>"

definition two_gib :: OpKernelContext where
  "two_gib =
     \<lparr>Input0 = \<lparr>Shape = [2147483648, 1], DataType = UInt8,
                 Data = Raw (replicate 2147483648 1)\<rparr>,
      Input1 = \<lparr>Shape = [1], DataType = Int64, Data = I64 [0]\<rparr>,
      OutputBuf = Raw (replicate 2147483648 0),
      OperatorThreadPool = [(0, 2147483648)]\<rparr>"

text \<open>Scenario 2 of the spec: data \<open>[10, 20, 30]\<close>, axis 0, indices \<open>[-1]\<close>.\<close>

definition scenario2 :: OpKernelContext where
  "scenario2 =
     \<lparr>Input0 = \<lparr>Shape = [3], DataType = UInt8, Data = Raw [10, 20, 30]\<rparr>,
      Input1 = \<lparr>Shape = [1], DataType = Int64, Data = I64 [- 1]\<rparr>,
      OutputBuf = Raw [0],
      OperatorThreadPool = [(0, 1)]\<rparr>"

text \<open>Scenario 1 of the spec: data of shape \<open>[3,4]\<close>, axis 0, indices \<open>[0, 2]\<close>.\<close>

definition scenario1 :: OpKernelContext where
  "scenario1 =
     \<lparr>Input0 = \<lparr>Shape = [3, 4], DataType = UInt8,
                 Data = Raw [0, 1, 2, 3, 10, 11, 12, 13, 20, 21, 22, 23]\<rparr>,
      Input1 = \<lparr>Shape = [2], DataType = Int64, Data = I64 [0, 2]\<rparr>,
      OutputBuf = Raw (replicate 8 0),
      OperatorThreadPool = [(0, 2)]\<rparr>"

section \<open>Properties\<close>

subsection \<open>The output shape\<close>

lemma push_back_dims_eq:
  "0 \<le> i \<Longrightarrow> i \<le> hi \<Longrightarrow> hi \<le> int (length shp) \<Longrightarrow>
   push_back_dims shp i hi acc = acc @ take (nat hi - nat i) (drop (nat i) shp)"
proof (induction shp i hi acc rule: push_back_dims.induct)
  case (1 shp i hi acc)
  show ?case
  proof (cases "i < hi")
    case False
    then show ?thesis
      by (subst push_back_dims.simps) simp
  next
    case True
    have ni: "nat i < length shp"
      using True "1.prems" by linarith
    have step: "nat (i + 1) = Suc (nat i)"
      using "1.prems" by simp
    have cnt: "nat hi - nat i = Suc (nat hi - Suc (nat i))"
      using True "1.prems" by linarith
    have "push_back_dims shp i hi acc =
          push_back_dims shp (i + 1) hi (acc @ [shp ! nat i])"
      using True by (subst push_back_dims.simps) simp
    also have "\<dots> = (acc @ [shp ! nat i]) @ take (nat hi - nat (i + 1)) (drop (nat (i + 1)) shp)"
      using True "1.prems" by (intro "1.IH") simp_all
    also have "\<dots> = acc @ take (nat hi - nat i) (drop (nat i) shp)"
      using ni by (simp add: step cnt Cons_nth_drop_Suc [symmetric])
    finally show ?thesis .
  qed
qed

lemma push_back_all_eq: "push_back_all dims acc = acc @ dims"
  by (induction dims arbitrary: acc) simp_all

lemma HandleNegativeAxis_valid:
  assumes "- r \<le> ax" "ax < r"
  shows "HandleNegativeAxis ax r = Inr (if ax < 0 then ax + r else ax)"
  using assms by (simp add: HandleNegativeAxis_def)

lemma PrepareForCompute_valid:
  assumes "- int (length (Shape (Input0 ctx))) \<le> axis_attr k"
    and "axis_attr k < int (length (Shape (Input0 ctx)))"
  defines "a \<equiv> (if axis_attr k < 0 then axis_attr k + int (length (Shape (Input0 ctx))) else axis_attr k)"
  shows "PrepareForCompute k ctx =
     Inr \<lparr>input_tensor = Input0 ctx, indices_tensor = Input1 ctx,
          output_tensor = Output ctx (take (nat a) (Shape (Input0 ctx)) @ Shape (Input1 ctx)
                                        @ drop (nat a + 1) (Shape (Input0 ctx))),
          axis = a\<rparr>"
proof -
  let ?shp = "Shape (Input0 ctx)"
  have a0: "0 \<le> a" and a1: "a < int (length ?shp)"
    using assms(1,2) by (auto simp: a_def)
  have h: "HandleNegativeAxis (axis_attr k) (int (length ?shp)) = Inr a"
    unfolding a_def by (rule HandleNegativeAxis_valid [OF assms(1,2)])
  have l1: "push_back_dims ?shp 0 a [] = take (nat a) ?shp"
    using a0 a1 by (simp add: push_back_dims_eq)
  have l3: "push_back_dims ?shp (a + 1) (int (length ?shp)) acc = acc @ drop (nat a + 1) ?shp"
    for acc
  proof -
    have "nat (a + 1) = nat a + 1"
      using a0 by simp
    then show ?thesis
      using a0 a1 by (simp add: push_back_dims_eq)
  qed
  show ?thesis
    by (simp add: PrepareForCompute_def Let_def NumDimensions_def h l1 l3 push_back_all_eq)
qed

text \<open>
  Claim C1. For every data tensor, every index tensor and every valid axis attribute
  (one in \<open>[-rank, rank)\<close>), PrepareForCompute succeeds, and the shape it gives the output
  tensor is \<open>input.shape[0:axis] ++ indices.shape ++ input.shape[axis+1:]\<close> for the
  normalized axis; hence the rank of the output is \<open>input.rank - 1 + indices.rank\<close>.
\<close>

theorem C1_output_shape:
  assumes "- NumDimensions (Shape (Input0 ctx)) \<le> axis_attr k"
    and "axis_attr k < NumDimensions (Shape (Input0 ctx))"
  shows "\<exists>p. PrepareForCompute k ctx = Inr p
           \<and> axis p = (if axis_attr k < 0 then axis_attr k + NumDimensions (Shape (Input0 ctx))
                       else axis_attr k)
           \<and> 0 \<le> axis p \<and> axis p < NumDimensions (Shape (Input0 ctx))
           \<and> Shape (output_tensor p) =
               take (nat (axis p)) (Shape (Input0 ctx)) @ Shape (Input1 ctx)
                 @ drop (nat (axis p) + 1) (Shape (Input0 ctx))
           \<and> NumDimensions (Shape (output_tensor p)) =
               NumDimensions (Shape (Input0 ctx)) - 1 + NumDimensions (Shape (Input1 ctx))"
proof -
  let ?shp = "Shape (Input0 ctx)"
  define a where "a = (if axis_attr k < 0 then axis_attr k + int (length ?shp) else axis_attr k)"
  have a0: "0 \<le> a" and a1: "a < int (length ?shp)"
    using assms by (auto simp: NumDimensions_def a_def)
  have n: "nat a < length ?shp"
    using a0 a1 by linarith
  have len: "int (length (take (nat a) ?shp @ Shape (Input1 ctx) @ drop (nat a + 1) ?shp))
             = int (length ?shp) - 1 + int (length (Shape (Input1 ctx)))"
    using n by simp
  have "PrepareForCompute k ctx =
     Inr \<lparr>input_tensor = Input0 ctx, indices_tensor = Input1 ctx,
          output_tensor = Output ctx (take (nat a) ?shp @ Shape (Input1 ctx)
                                        @ drop (nat a + 1) ?shp),
          axis = a\<rparr>"
    using assms PrepareForCompute_valid [of ctx k] by (simp add: NumDimensions_def a_def)
  moreover have "a = (if axis_attr k < 0 then axis_attr k + NumDimensions ?shp else axis_attr k)"
    by (simp add: a_def NumDimensions_def)
  ultimately show ?thesis
    using a0 a1 len unfolding NumDimensions_def Output_def
    by (intro exI conjI) (assumption | simp del: length_append length_take length_drop)+
qed

theorem C1_output_shape_witness:
  "- NumDimensions (Shape (Input0 scenario4)) \<le> axis_attr \<lparr>axis_attr = 1\<rparr>
   \<and> axis_attr \<lparr>axis_attr = 1\<rparr> < NumDimensions (Shape (Input0 scenario4))
   \<and> (\<exists>p. PrepareForCompute \<lparr>axis_attr = 1\<rparr> scenario4 = Inr p
          \<and> axis p = 1
          \<and> Shape (output_tensor p) = [2, 2, 2]
          \<and> NumDimensions (Shape (output_tensor p)) = 3)"
proof -
  have h1: "- NumDimensions (Shape (Input0 scenario4)) \<le> axis_attr \<lparr>axis_attr = 1\<rparr>"
    by (simp add: scenario4_def NumDimensions_def)
  have h2: "axis_attr \<lparr>axis_attr = 1\<rparr> < NumDimensions (Shape (Input0 scenario4))"
    by (simp add: scenario4_def NumDimensions_def)
  from C1_output_shape [OF h1 h2] obtain p where
    p: "PrepareForCompute \<lparr>axis_attr = 1\<rparr> scenario4 = Inr p"
    and ax: "axis p = (if axis_attr \<lparr>axis_attr = 1\<rparr> < 0
               then axis_attr \<lparr>axis_attr = 1\<rparr> + NumDimensions (Shape (Input0 scenario4))
               else axis_attr \<lparr>axis_attr = 1\<rparr>)"
    and shp: "Shape (output_tensor p) =
               take (nat (axis p)) (Shape (Input0 scenario4)) @ Shape (Input1 scenario4)
                 @ drop (nat (axis p) + 1) (Shape (Input0 scenario4))"
    and rk: "NumDimensions (Shape (output_tensor p)) =
               NumDimensions (Shape (Input0 scenario4)) - 1
                 + NumDimensions (Shape (Input1 scenario4))"
    by blast
  have ax1: "axis p = 1"
    using ax by simp
  have "Shape (output_tensor p) = [2, 2, 2]"
    using shp by (simp add: ax1 scenario4_def)
  moreover have "NumDimensions (Shape (output_tensor p)) = 3"
    using rk by (simp add: scenario4_def NumDimensions_def)
  ultimately show ?thesis
    using h1 h2 p ax1 by blast
qed

subsection \<open>Validation of the indices\<close>

lemma check_indices_OK_iff:
  "check_indices get_index N lim i = Some OK \<longleftrightarrow>
     (\<forall>j. i \<le> j \<and> j < N \<longrightarrow> (\<exists>v. get_index j = Some v \<and> - lim \<le> v \<and> v < lim))"
proof (induction get_index N lim i rule: check_indices.induct)
  case (1 get_index N lim i)
  show ?case
  proof (cases "i < N")
    case False
    then show ?thesis
      by (subst check_indices.simps) auto
  next
    case True
    show ?thesis
    proof (cases "get_index i")
      case None
      have "check_indices get_index N lim i = None"
        using True None by (subst check_indices.simps) simp
      moreover have "\<not> (\<forall>j. i \<le> j \<and> j < N \<longrightarrow> (\<exists>v. get_index j = Some v \<and> - lim \<le> v \<and> v < lim))"
        using True None by auto
      ultimately show ?thesis by simp
    next
      case (Some idx)
      show ?thesis
      proof (cases "idx < - lim \<or> lim \<le> idx")
        case bad: True
        have "check_indices get_index N lim i \<noteq> Some OK"
          using True Some bad by (subst check_indices.simps) (simp add: ORT_MAKE_STATUS_def)
        moreover have "\<not> (\<forall>j. i \<le> j \<and> j < N \<longrightarrow> (\<exists>v. get_index j = Some v \<and> - lim \<le> v \<and> v < lim))"
          using True Some bad by force
        ultimately show ?thesis by simp
      next
        case good: False
        have eq: "check_indices get_index N lim i = check_indices get_index N lim (i + 1)"
          using True Some good by (subst check_indices.simps) auto
        have ih: "check_indices get_index N lim (i + 1) = Some OK \<longleftrightarrow>
            (\<forall>j. i + 1 \<le> j \<and> j < N \<longrightarrow> (\<exists>v. get_index j = Some v \<and> - lim \<le> v \<and> v < lim))"
          using True Some good by (intro "1.IH") auto
        have "(\<forall>j. i \<le> j \<and> j < N \<longrightarrow> (\<exists>v. get_index j = Some v \<and> - lim \<le> v \<and> v < lim))
           \<longleftrightarrow> (\<forall>j. i + 1 \<le> j \<and> j < N \<longrightarrow> (\<exists>v. get_index j = Some v \<and> - lim \<le> v \<and> v < lim))"
        proof (intro iffI allI impI)
          fix j assume a: "\<forall>j. i + 1 \<le> j \<and> j < N \<longrightarrow> (\<exists>v. get_index j = Some v \<and> - lim \<le> v \<and> v < lim)"
            and j: "i \<le> j \<and> j < N"
          show "\<exists>v. get_index j = Some v \<and> - lim \<le> v \<and> v < lim"
          proof (cases "j = i")
            case True
            then show ?thesis using Some good by auto
          next
            case False
            then show ?thesis using a j by auto
          qed
        qed auto
        then show ?thesis
          using eq ih by simp
      qed
    qed
  qed
qed

lemma check_indices_fail:
  assumes "\<forall>j. i \<le> j \<and> j < N \<longrightarrow> get_index j \<noteq> None"
    and "\<exists>j idx. i \<le> j \<and> j < N \<and> get_index j = Some idx \<and> (idx < - lim \<or> lim \<le> idx)"
  shows "\<exists>j idx. i \<le> j \<and> j < N \<and> get_index j = Some idx \<and> (idx < - lim \<or> lim \<le> idx)
           \<and> (\<forall>j'. i \<le> j' \<and> j' < j \<longrightarrow> (\<exists>v. get_index j' = Some v \<and> - lim \<le> v \<and> v < lim))
           \<and> check_indices get_index N lim i =
               Some (Failed INVALID_ARGUMENT
                 (''indices element out of data bounds, idx='' @ MakeString_int64 idx
                  @ '' must be within the inclusive range ['' @ MakeString_int64 (- lim)
                  @ '','' @ MakeString_int64 (lim - 1) @ '']''))"
  using assms
proof (induction get_index N lim i rule: check_indices.induct)
  case (1 get_index N lim i)
  from "1.prems"(2) obtain j0 idx0 where j0: "i \<le> j0" "j0 < N" "get_index j0 = Some idx0"
    "idx0 < - lim \<or> lim \<le> idx0" by blast
  then have iN: "i < N" by simp
  with "1.prems"(1) obtain idx where idx: "get_index i = Some idx" by auto
  show ?case
  proof (cases "idx < - lim \<or> lim \<le> idx")
    case True
    have "check_indices get_index N lim i =
               Some (Failed INVALID_ARGUMENT
                 (''indices element out of data bounds, idx='' @ MakeString_int64 idx
                  @ '' must be within the inclusive range ['' @ MakeString_int64 (- lim)
                  @ '','' @ MakeString_int64 (lim - 1) @ '']''))"
      using iN idx True by (subst check_indices.simps) (simp add: ORT_MAKE_STATUS_def)
    then show ?thesis
      using iN idx True by - (rule exI [where x = i], rule exI [where x = idx], auto)
  next
    case False
    have eq: "check_indices get_index N lim i = check_indices get_index N lim (i + 1)"
      using iN idx False by (subst check_indices.simps) auto
    have "j0 \<noteq> i" using j0 idx False by auto
    then have ex: "\<exists>j idx. i + 1 \<le> j \<and> j < N \<and> get_index j = Some idx \<and> (idx < - lim \<or> lim \<le> idx)"
      using j0 by - (rule exI [where x = j0], rule exI [where x = idx0], simp)
    have "\<exists>j idx. i + 1 \<le> j \<and> j < N \<and> get_index j = Some idx \<and> (idx < - lim \<or> lim \<le> idx)
           \<and> (\<forall>j'. i + 1 \<le> j' \<and> j' < j \<longrightarrow> (\<exists>v. get_index j' = Some v \<and> - lim \<le> v \<and> v < lim))
           \<and> check_indices get_index N lim (i + 1) =
               Some (Failed INVALID_ARGUMENT
                 (''indices element out of data bounds, idx='' @ MakeString_int64 idx
                  @ '' must be within the inclusive range ['' @ MakeString_int64 (- lim)
                  @ '','' @ MakeString_int64 (lim - 1) @ '']''))"
      using iN idx False "1.prems"(1) ex by (intro "1.IH") auto
    then obtain j idx' where j: "i + 1 \<le> j" "j < N" "get_index j = Some idx'"
      "idx' < - lim \<or> lim \<le> idx'"
      "\<forall>j'. i + 1 \<le> j' \<and> j' < j \<longrightarrow> (\<exists>v. get_index j' = Some v \<and> - lim \<le> v \<and> v < lim)"
      "check_indices get_index N lim (i + 1) =
               Some (Failed INVALID_ARGUMENT
                 (''indices element out of data bounds, idx='' @ MakeString_int64 idx'
                  @ '' must be within the inclusive range ['' @ MakeString_int64 (- lim)
                  @ '','' @ MakeString_int64 (lim - 1) @ '']''))"
      by blast
    have before: "\<forall>j'. i \<le> j' \<and> j' < j \<longrightarrow> (\<exists>v. get_index j' = Some v \<and> - lim \<le> v \<and> v < lim)"
    proof (intro allI impI)
      fix j' assume a: "i \<le> j' \<and> j' < j"
      show "\<exists>v. get_index j' = Some v \<and> - lim \<le> v \<and> v < lim"
      proof (cases "j' = i")
        case True
        then show ?thesis using idx False by auto
      next
        case False
        then show ?thesis using a j(5) by auto
      qed
    qed
    show ?thesis
      using j(1-4) before j(6) eq by - (rule exI [where x = j], rule exI [where x = idx'], simp)
  qed
qed

text \<open>
  Claim C2. GatherCopyData checks the \<open>N\<close> index positions \<open>0, ..., N - 1\<close> (whatever
  the batch count \<open>M\<close> is) against \<open>[-dim, dim)\<close>, where \<open>dim = input_data_shape[axis]\<close>,
  before it copies: if some position holds an index outside that range, the result is the
  status INVALID_ARGUMENT whose message carries the first such index and the inclusive
  range \<open>[-dim, dim - 1]\<close>, and the destination memory is returned as it was given. A
  run that reaches the copy (status OK) has all \<open>N\<close> indices in range, and no failing
  run changes the destination.
\<close>

theorem C2_validation_first:
  fixes get_index :: "int \<Rightarrow> int option" and src_base dst_base :: buffer
    and is_string_type :: bool
    and element_bytes block_size M N data_batch_bytes gathered_batch_bytes ax :: int
    and input_data_shape :: TensorShape and tp :: "(int \<times> int) list"
  assumes "0 \<le> ax" and "ax < int (length input_data_shape)"
    and "\<forall>i. 0 \<le> i \<and> i < N \<longrightarrow> get_index i \<noteq> None"
  defines "dim \<equiv> input_data_shape ! nat ax"
  defines "run \<equiv> GatherCopyData get_index src_base dst_base is_string_type element_bytes
                    block_size M N data_batch_bytes gathered_batch_bytes input_data_shape ax tp"
  shows "((\<exists>i idx. 0 \<le> i \<and> i < N \<and> get_index i = Some idx \<and> (idx < - dim \<or> dim \<le> idx)) \<longrightarrow>
            (\<exists>i idx. 0 \<le> i \<and> i < N \<and> get_index i = Some idx \<and> (idx < - dim \<or> dim \<le> idx)
               \<and> (\<forall>j. 0 \<le> j \<and> j < i \<longrightarrow> (\<exists>v. get_index j = Some v \<and> - dim \<le> v \<and> v < dim))
               \<and> run = Some (Failed INVALID_ARGUMENT
                    (''indices element out of data bounds, idx='' @ MakeString_int64 idx
                     @ '' must be within the inclusive range ['' @ MakeString_int64 (- dim)
                     @ '','' @ MakeString_int64 (dim - 1) @ '']''), dst_base)))
       \<and> (\<forall>dst. run = Some (OK, dst) \<longrightarrow>
            (\<forall>i. 0 \<le> i \<and> i < N \<longrightarrow> (\<exists>idx. get_index i = Some idx \<and> - dim \<le> idx \<and> idx < dim)))
       \<and> (\<forall>code msg dst. run = Some (Failed code msg, dst) \<longrightarrow> dst = dst_base)"
proof (intro conjI impI allI)
  assume "\<exists>i idx. 0 \<le> i \<and> i < N \<and> get_index i = Some idx \<and> (idx < - dim \<or> dim \<le> idx)"
  from check_indices_fail [OF assms(3) this] obtain j idx where
    j: "0 \<le> j" "j < N" "get_index j = Some idx" "idx < - dim \<or> dim \<le> idx"
      "\<forall>j'. 0 \<le> j' \<and> j' < j \<longrightarrow> (\<exists>v. get_index j' = Some v \<and> - dim \<le> v \<and> v < dim)"
    and c: "check_indices get_index N dim 0 =
               Some (Failed INVALID_ARGUMENT
                 (''indices element out of data bounds, idx='' @ MakeString_int64 idx
                  @ '' must be within the inclusive range ['' @ MakeString_int64 (- dim)
                  @ '','' @ MakeString_int64 (dim - 1) @ '']''))"
    by blast
  have "run = Some (Failed INVALID_ARGUMENT
                 (''indices element out of data bounds, idx='' @ MakeString_int64 idx
                  @ '' must be within the inclusive range ['' @ MakeString_int64 (- dim)
                  @ '','' @ MakeString_int64 (dim - 1) @ '']''), dst_base)"
    using assms(1,2) c unfolding run_def GatherCopyData_def dim_def [symmetric]
    by (simp add: Let_def dim_def)
  with j show "\<exists>i idx. 0 \<le> i \<and> i < N \<and> get_index i = Some idx \<and> (idx < - dim \<or> dim \<le> idx)
               \<and> (\<forall>j. 0 \<le> j \<and> j < i \<longrightarrow> (\<exists>v. get_index j = Some v \<and> - dim \<le> v \<and> v < dim))
               \<and> run = Some (Failed INVALID_ARGUMENT
                    (''indices element out of data bounds, idx='' @ MakeString_int64 idx
                     @ '' must be within the inclusive range ['' @ MakeString_int64 (- dim)
                     @ '','' @ MakeString_int64 (dim - 1) @ '']''), dst_base)"
    by blast
next
  fix dst i
  assume r: "run = Some (OK, dst)" and i: "0 \<le> i \<and> i < N"
  have "check_indices get_index N dim 0 = Some OK"
    using r assms(1,2) unfolding run_def GatherCopyData_def dim_def
    by (auto simp: Let_def split: option.splits Status.splits if_splits)
  then show "\<exists>idx. get_index i = Some idx \<and> - dim \<le> idx \<and> idx < dim"
    using i by (simp add: check_indices_OK_iff)
next
  fix code msg dst
  assume "run = Some (Failed code msg, dst)"
  then show "dst = dst_base"
    unfolding run_def GatherCopyData_def
    by (auto simp: Let_def split: option.splits Status.splits if_splits)
qed

theorem C2_validation_first_witness:
  "0 \<le> (0::int) \<and> (0::int) < int (length [3::int])
   \<and> get_index64 [5] 0 = Some 5
   \<and> GatherCopyData (get_index64 [5]) (Raw [10, 20, 30]) (Raw [0]) False 1 1 1 1 3 1 [3] 0 [(0, 1)]
       = Some (Failed INVALID_ARGUMENT
           ''indices element out of data bounds, idx=5 must be within the inclusive range [-3,2]'',
           Raw [0])"
proof -
  have h1: "0 \<le> (0::int)" and h2: "(0::int) < int (length [3::int])"
    by simp_all
  have h3: "\<forall>i. 0 \<le> i \<and> i < 1 \<longrightarrow> get_index64 [5] i \<noteq> None"
    by (simp add: get_index64_def)
  have h4: "\<exists>i idx. 0 \<le> i \<and> i < 1 \<and> get_index64 [5] i = Some idx \<and> (idx < - 3 \<or> 3 \<le> idx)"
    by (rule exI [where x = 0], rule exI [where x = 5]) (simp add: get_index64_def)
  have at0: "idx = 5" if "0 \<le> i \<and> i < 1" "get_index64 [5] i = Some idx" for i idx :: int
  proof -
    have "i = 0" using that(1) by simp
    with that(2) show ?thesis by (simp add: get_index64_def)
  qed
  from C2_validation_first [OF h1 h2 h3, of "Raw [10, 20, 30]" "Raw [0]" False 1 1 1 3 1 "[(0, 1)]"] h4
  obtain i idx where "0 \<le> i \<and> i < 1" "get_index64 [5] i = Some idx"
    and r: "GatherCopyData (get_index64 [5]) (Raw [10, 20, 30]) (Raw [0]) False 1 1 1 1 3 1 [3] 0 [(0, 1)]
       = Some (Failed INVALID_ARGUMENT
                    (''indices element out of data bounds, idx='' @ MakeString_int64 idx
                     @ '' must be within the inclusive range ['' @ MakeString_int64 (- ([3] ! nat 0))
                     @ '','' @ MakeString_int64 ([3] ! nat 0 - 1) @ '']''), Raw [0])"
    by auto
  then have "idx = 5" using at0 by blast
  with r have "GatherCopyData (get_index64 [5]) (Raw [10, 20, 30]) (Raw [0]) False 1 1 1 1 3 1 [3] 0 [(0, 1)]
       = Some (Failed INVALID_ARGUMENT
           ''indices element out of data bounds, idx=5 must be within the inclusive range [-3,2]'',
           Raw [0])"
    by (simp add: MakeString_int64_def decimal.simps digit_char_def)
  moreover have "get_index64 [5] 0 = Some 5"
    by (simp add: get_index64_def)
  ultimately show ?thesis
    using h1 h2 by blast
qed

subsection \<open>The chunk worker as a list of units\<close>

lemma run_units_append:
  "run_units lam (us @ vs) st =
     (case run_units lam us st of None \<Rightarrow> None | Some st' \<Rightarrow> run_units lam vs st')"
  by (induction us arbitrary: st) (auto split: option.splits)

lemma chunk_loop_units: "chunk_loop lam i e st = run_units lam [i..e - 1] st"
proof (induction lam i e st rule: chunk_loop.induct)
  case (1 lam i e st)
  show ?case
  proof (cases "i < e")
    case False
    then show ?thesis
      by (subst chunk_loop.simps) simp
  next
    case True
    then have l: "[i..e - 1] = i # [i + 1..e - 1]"
      by (simp add: upto_rec1)
    show ?thesis
    proof (cases "lam i st")
      case None
      then show ?thesis
        using True by (subst chunk_loop.simps) (simp add: l)
    next
      case (Some st')
      have "chunk_loop lam i e st = chunk_loop lam (i + 1) e st'"
        using True Some by (subst chunk_loop.simps) simp
      also have "\<dots> = run_units lam [i + 1..e - 1] st'"
        using True Some by (rule "1.IH")
      finally show ?thesis
        using Some by (simp add: l)
    qed
  qed
qed

lemma TryParallelFor_units:
  "TryParallelFor tp total' (chunk_worker lam) st = run_units lam (units_of tp) st"
proof (induction tp arbitrary: st)
  case Nil
  then show ?case by (simp add: units_of_def)
next
  case (Cons c tp)
  obtain f l where c: "c = (f, l)" by (cases c)
  have u: "units_of ((f, l) # tp) = [static_cast_int f..static_cast_int l - 1] @ units_of tp"
    by (simp add: units_of_def)
  have w: "chunk_worker lam f l st = run_units lam [static_cast_int f..static_cast_int l - 1] st"
    by (simp add: chunk_worker_def chunk_loop_units)
  show ?case
  proof (cases "chunk_worker lam f l st")
    case None
    then show ?thesis
      using w by (simp add: c u run_units_append)
  next
    case (Some st')
    then show ?thesis
      using w Cons.IH [of st'] by (simp add: c u run_units_append)
  qed
qed

lemma run_units_trace:
  "run_units (\<lambda>index trace. Some (trace @ [index])) us tr = Some (tr @ us)"
  by (induction us arbitrary: tr) simp_all

lemma units_run_eq: "units_run tp total' = Some (units_of tp)"
  by (simp add: units_run_def TryParallelFor_units run_units_trace)

lemma static_cast_int_id:
  "- (2 ^ 31) \<le> x \<Longrightarrow> x < 2 ^ 31 \<Longrightarrow> static_cast_int x = x"
  unfolding static_cast_int_def
  by (simp add: sint_sbintrunc' signed_take_bit_int_eq_self)



subsection \<open>Compute on a valid axis\<close>

lemma Compute_valid:
  assumes "- NumDimensions (Shape (Input0 ctx)) \<le> axis_attr k"
    and "axis_attr k < NumDimensions (Shape (Input0 ctx))"
  defines "a \<equiv> (if axis_attr k < 0 then axis_attr k + NumDimensions (Shape (Input0 ctx))
                 else axis_attr k)"
  defines "shp \<equiv> Shape (Input0 ctx)"
  defines "eb \<equiv> Size_of (DataType (Input0 ctx))"
  defines "N \<equiv> Size (Shape (Input1 ctx))"
  defines "run \<equiv> (\<lambda>get_index.
     GatherCopyData get_index (Data (Input0 ctx)) (OutputBuf ctx) (DataType (Input0 ctx) = String)
       eb (SizeFromDimension shp (a + 1) * eb) (SizeToDimension shp a) N
       (SizeFromDimension shp a * eb) (N * SizeFromDimension shp (a + 1) * eb) shp a
       (OperatorThreadPool ctx))"
  shows "Compute k ctx =
     (if DataType (Input1 ctx) = Int32 then
        (case DataAsSpan_int32 (Input1 ctx) of
           None \<Rightarrow> None
         | Some indices_data \<Rightarrow> run (get_index32 indices_data))
      else if DataType (Input1 ctx) = Int64 then
        (case DataAsSpan_int64 (Input1 ctx) of
           None \<Rightarrow> None
         | Some indices_data \<Rightarrow> run (get_index64 indices_data))
      else Some (Failed NOT_IMPLEMENTED ''Type for Tind not supported yet in Gather.'',
                 OutputBuf ctx))"
proof -
  have p: "PrepareForCompute k ctx =
     Inr \<lparr>input_tensor = Input0 ctx, indices_tensor = Input1 ctx,
          output_tensor = Output ctx (take (nat a) shp @ Shape (Input1 ctx) @ drop (nat a + 1) shp),
          axis = a\<rparr>"
    using assms(1,2) PrepareForCompute_valid [of ctx k]
    by (simp add: NumDimensions_def a_def shp_def)
  show ?thesis
    unfolding Compute_def p
    by (simp add: Let_def IsDataType_def IsDataTypeString_def Output_def ORT_MAKE_STATUS_def
        run_def eb_def N_def shp_def split: option.splits)
qed

lemma axis_range:
  assumes "- NumDimensions shp \<le> ax" and "ax < NumDimensions shp"
  shows "0 \<le> (if ax < 0 then ax + NumDimensions shp else ax)"
    and "(if ax < 0 then ax + NumDimensions shp else ax) < int (length shp)"
  using assms by (auto simp: NumDimensions_def)

subsection \<open>An index tensor of an unsupported element type\<close>

text \<open>
  Claim C7, as amended. For a valid axis attribute, if the element type of the index tensor
  is neither Int32 nor Int64, Compute returns the status NOT_IMPLEMENTED with the fixed
  message \<^verbatim>\<open>Type for Tind not supported yet in Gather.\<close> and the output memory as the
  host gave it: no copy has run. The message names the type parameter \<^verbatim>\<open>Tind\<close>, not the
  element type that was found.
\<close>

theorem C7_unsupported_index_type:
  assumes "- NumDimensions (Shape (Input0 ctx)) \<le> axis_attr k"
    and "axis_attr k < NumDimensions (Shape (Input0 ctx))"
    and "DataType (Input1 ctx) \<noteq> Int32" and "DataType (Input1 ctx) \<noteq> Int64"
  shows "Compute k ctx =
           Some (Failed NOT_IMPLEMENTED ''Type for Tind not supported yet in Gather.'',
                 OutputBuf ctx)"
  using assms(3,4) by (simp add: Compute_valid [OF assms(1,2)])

theorem C7_unsupported_index_type_witness:
  "- NumDimensions (Shape (Input0 tind_int16)) \<le> axis_attr \<lparr>axis_attr = 0\<rparr>
   \<and> axis_attr \<lparr>axis_attr = 0\<rparr> < NumDimensions (Shape (Input0 tind_int16))
   \<and> DataType (Input1 tind_int16) \<noteq> Int32 \<and> DataType (Input1 tind_int16) \<noteq> Int64
   \<and> Compute \<lparr>axis_attr = 0\<rparr> tind_int16 =
         Some (Failed NOT_IMPLEMENTED ''Type for Tind not supported yet in Gather.'', Raw [0])"
proof -
  have h1: "- NumDimensions (Shape (Input0 tind_int16)) \<le> axis_attr \<lparr>axis_attr = 0\<rparr>"
    and h2: "axis_attr \<lparr>axis_attr = 0\<rparr> < NumDimensions (Shape (Input0 tind_int16))"
    and h3: "DataType (Input1 tind_int16) \<noteq> Int32"
    and h4: "DataType (Input1 tind_int16) \<noteq> Int64"
    by (simp_all add: tind_int16_def NumDimensions_def)
  have "OutputBuf tind_int16 = Raw [0]"
    by (simp add: tind_int16_def)
  with C7_unsupported_index_type [OF h1 h2 h3 h4] h1 h2 h3 h4 show ?thesis
    by simp
qed

text \<open>
  The claim as stated has the message name the unsupported index type. It does not: an
  \<^verbatim>\<open>int16\<close> and a \<^verbatim>\<open>uint8\<close> index tensor get the same status, character for character.
\<close>

theorem C7_message_is_fixed:
  "Compute \<lparr>axis_attr = 0\<rparr> tind_int16 =
      Some (Failed NOT_IMPLEMENTED ''Type for Tind not supported yet in Gather.'', Raw [0])
   \<and> Compute \<lparr>axis_attr = 0\<rparr> tind_uint8 =
      Some (Failed NOT_IMPLEMENTED ''Type for Tind not supported yet in Gather.'', Raw [0])
   \<and> DataType (Input1 tind_int16) = Int16
   \<and> DataType (Input1 tind_uint8) = UInt8"
  by code_simp

subsection \<open>Chunks\<close>

lemma chain_bounds:
  "chain a b cs \<Longrightarrow> (f, l) \<in> set cs \<Longrightarrow> a \<le> f \<and> f \<le> l \<and> l \<le> b"
proof (induction cs arbitrary: a)
  case Nil
  then show ?case by simp
next
  case (Cons c cs)
  obtain f' l' where c: "c = (f', l')" by (cases c)
  from Cons.prems(1) have 1: "f' = a" "f' \<le> l'" "chain l' b cs"
    by (simp_all add: c)
  have le: "l' \<le> b" using 1(3)
  proof (induction cs arbitrary: l')
    case Nil
    then show ?case by simp
  next
    case (Cons d ds)
    obtain f2 l2 where d: "d = (f2, l2)" by (cases d)
    from Cons.prems have "f2 = l'" "f2 \<le> l2" "chain l2 b ds"
      by (simp_all add: d)
    with Cons.IH [of l2] show ?case by simp
  qed
  show ?case
  proof (cases "(f, l) = c")
    case True
    then show ?thesis using 1 le by (simp add: c)
  next
    case False
    then have "(f, l) \<in> set cs" using Cons.prems(2) by simp
    from Cons.IH [OF 1(3) this] show ?thesis using 1 by simp
  qed
qed

lemma chunks_of_bounds:
  assumes "chunks_of total' tp" and "(f, l) \<in> set tp"
  shows "0 \<le> f \<and> f \<le> l \<and> l \<le> total'"
proof -
  have "(f, l) \<in> set (sort tp)"
    using assms(2) by simp
  with assms(1) show ?thesis
    unfolding chunks_of_def by (rule chain_bounds)
qed

lemma units_of_empty_total:
  assumes "chunks_of 0 tp"
  shows "units_of tp = []"
proof -
  have "[static_cast_int f..static_cast_int l - 1] = []" if "(f, l) \<in> set tp" for f l
  proof -
    from chunks_of_bounds [OF assms that] have "f = 0" "l = 0" by simp_all
    then show ?thesis by simp
  qed
  then show ?thesis
    unfolding units_of_def by auto
qed

lemma check_indices_none_to_check: "N \<le> i \<Longrightarrow> check_indices get_index N lim i = Some OK"
  by (subst check_indices.simps) simp

lemma Size_output_shape:
  "Size (take n shp @ ishp @ drop m shp) = prod_list (take n shp) * Size ishp * prod_list (drop m shp)"
  by (simp add: Size_def)

subsection \<open>An index tensor with no element\<close>

text \<open>
  Claim C9. When the index tensor has no element (\<open>N = 0\<close>: its shape has a zero
  dimension), the axis attribute is valid and the indices are of a supported type, Compute
  returns OK: the validation loop has no position to check, the closure is called for no
  unit (so \<^verbatim>\<open>index / N\<close> and \<^verbatim>\<open>index % N\<close>, undefined for \<open>N = 0\<close>, are never
  evaluated), the output memory is untouched, and the output shape has no element.
\<close>

theorem C9_empty_indices:
  assumes "- NumDimensions (Shape (Input0 ctx)) \<le> axis_attr k"
    and "axis_attr k < NumDimensions (Shape (Input0 ctx))"
    and "(DataType (Input1 ctx) = Int32 \<and> (\<exists>xs. Data (Input1 ctx) = I32 xs))
         \<or> (DataType (Input1 ctx) = Int64 \<and> (\<exists>xs. Data (Input1 ctx) = I64 xs))"
    and "Size (Shape (Input1 ctx)) = 0"
    and "chunks_of 0 (OperatorThreadPool ctx)"
  shows "Compute k ctx = Some (OK, OutputBuf ctx)
         \<and> units_run (OperatorThreadPool ctx) 0 = Some []
         \<and> (\<exists>p. PrepareForCompute k ctx = Inr p \<and> Size (Shape (output_tensor p)) = 0)"
proof -
  define a where "a = (if axis_attr k < 0 then axis_attr k + NumDimensions (Shape (Input0 ctx))
                       else axis_attr k)"
  have a: "0 \<le> a" "a < int (length (Shape (Input0 ctx)))"
    using axis_range [OF assms(1,2)] by (simp_all add: a_def)
  have u: "units_of (OperatorThreadPool ctx) = []"
    by (rule units_of_empty_total [OF assms(5)])
  have run: "GatherCopyData get_index src (OutputBuf ctx) s eb bs M 0 dbb gbb (Shape (Input0 ctx)) a
               (OperatorThreadPool ctx) = Some (OK, OutputBuf ctx)"
    for get_index src s eb bs M dbb gbb
    using a
    by (simp add: GatherCopyData_def Let_def check_indices_none_to_check TryParallelFor_units u)
  have c: "Compute k ctx = Some (OK, OutputBuf ctx)"
    using assms(3) unfolding Compute_valid [OF assms(1,2)] assms(4) a_def [symmetric]
    by (auto simp: DataAsSpan_int32_def DataAsSpan_int64_def run)
  define p where "p = \<lparr>input_tensor = Input0 ctx, indices_tensor = Input1 ctx,
          output_tensor = Output ctx (take (nat a) (Shape (Input0 ctx)) @ Shape (Input1 ctx)
                                        @ drop (nat a + 1) (Shape (Input0 ctx))),
          axis = a\<rparr>"
  have p: "PrepareForCompute k ctx = Inr p"
    using assms(1,2) PrepareForCompute_valid [of ctx k]
    by (simp add: NumDimensions_def a_def p_def)
  have shp: "Shape (output_tensor p) =
               take (nat a) (Shape (Input0 ctx)) @ Shape (Input1 ctx)
                 @ drop (nat a + 1) (Shape (Input0 ctx))"
    by (simp add: p_def Output_def)
  have "Size (Shape (output_tensor p)) = 0"
    unfolding shp Size_output_shape assms(4) by simp
  with c p u show ?thesis
    by (simp add: units_run_eq)
qed

theorem C9_empty_indices_witness:
  "DataType (Input1 empty_indices) = Int64
   \<and> Size (Shape (Input1 empty_indices)) = 0
   \<and> chunks_of 0 (OperatorThreadPool empty_indices)
   \<and> Compute \<lparr>axis_attr = 0\<rparr> empty_indices = Some (OK, Raw [])
   \<and> units_run (OperatorThreadPool empty_indices) 0 = Some []
   \<and> (\<exists>p. PrepareForCompute \<lparr>axis_attr = 0\<rparr> empty_indices = Inr p
          \<and> Size (Shape (output_tensor p)) = 0)"
proof -
  have h1: "- NumDimensions (Shape (Input0 empty_indices)) \<le> axis_attr \<lparr>axis_attr = 0\<rparr>"
    and h2: "axis_attr \<lparr>axis_attr = 0\<rparr> < NumDimensions (Shape (Input0 empty_indices))"
    by (simp_all add: empty_indices_def NumDimensions_def)
  have t: "DataType (Input1 empty_indices) = Int64"
    by (simp add: empty_indices_def)
  then have h3: "(DataType (Input1 empty_indices) = Int32 \<and> (\<exists>xs. Data (Input1 empty_indices) = I32 xs))
         \<or> (DataType (Input1 empty_indices) = Int64 \<and> (\<exists>xs. Data (Input1 empty_indices) = I64 xs))"
    by (simp add: empty_indices_def)
  have h4: "Size (Shape (Input1 empty_indices)) = 0"
    by (simp add: empty_indices_def Size_def)
  have h5: "chunks_of 0 (OperatorThreadPool empty_indices)"
    by (simp add: empty_indices_def chunks_of_def)
  have "OutputBuf empty_indices = Raw []"
    by (simp add: empty_indices_def)
  with C9_empty_indices [OF h1 h2 h3 h4 h5] t h4 h5 show ?thesis
    by simp
qed

subsection \<open>The iteration space that the chunk worker realizes\<close>

lemma chain_concat_upto:
  "chain a b cs \<Longrightarrow> concat (map (\<lambda>(f, l). [f..l - 1]) cs) = [a..b - 1]"
proof (induction cs arbitrary: a)
  case Nil
  then show ?case by simp
next
  case (Cons c cs)
  obtain f l where c: "c = (f, l)" by (cases c)
  from Cons.prems have 1: "f = a" "f \<le> l" "chain l b cs"
    by (simp_all add: c)
  have lb: "l \<le> b"
  proof (cases cs)
    case Nil
    then show ?thesis using 1(3) by simp
  next
    case (Cons d ds)
    then have "d \<in> set cs" by simp
    then show ?thesis
      using chain_bounds [OF 1(3), of "fst d" "snd d"] by simp
  qed
  have "[a..b - 1] = [a..l - 1] @ [l..b - 1]"
    using 1(1,2) lb by (cases "l = b") (simp_all add: upto_split1 [of a l "b - 1"])
  then show ?case
    using Cons.IH [OF 1(3)] 1(1) by (simp add: c)
qed

lemma mset_concat_map_perm:
  assumes "mset xs = mset ys"
  shows "mset (concat (map g xs)) = mset (concat (map g ys))"
proof -
  have "mset (concat (map g zs)) = (\<Sum>z\<in>#mset zs. mset (g z))" for zs
    by (induction zs) simp_all
  then show ?thesis
    using assms by simp
qed

lemma units_of_in_range:
  assumes "chunks_of total' tp" and "total' \<le> 2 ^ 31 - 1"
  shows "units_of tp = concat (map (\<lambda>(f, l). [f..l - 1]) tp)"
proof -
  have "[static_cast_int f..static_cast_int l - 1] = [f..l - 1]" if "(f, l) \<in> set tp" for f l
  proof -
    from chunks_of_bounds [OF assms(1) that] assms(2)
    have "- (2 ^ 31) \<le> f" "f < 2 ^ 31" "- (2 ^ 31) \<le> l" "l < 2 ^ 31"
      by simp_all
    then show ?thesis
      by (simp add: static_cast_int_id)
  qed
  then have "\<forall>c\<in>set tp. (case c of (first, last') \<Rightarrow>
                 [static_cast_int first..static_cast_int last' - 1])
               = (case c of (f, l) \<Rightarrow> [f..l - 1])"
    by auto
  then show ?thesis
    by (simp add: units_of_def cong: map_cong)
qed

lemma units_of_mset:
  assumes "chunks_of total' tp" and "total' \<le> 2 ^ 31 - 1"
  shows "mset (units_of tp) = mset [0..total' - 1]"
proof -
  have "mset (units_of tp) = mset (concat (map (\<lambda>(f, l). [f..l - 1]) tp))"
    by (simp add: units_of_in_range [OF assms])
  also have "\<dots> = mset (concat (map (\<lambda>(f, l). [f..l - 1]) (sort tp)))"
    by (rule mset_concat_map_perm) simp
  also have "\<dots> = mset [0..total' - 1]"
    using assms(1) by (simp add: chunks_of_def chain_concat_upto)
  finally show ?thesis .
qed


lemma sequential_run_past_int_max: "units_of [(0, 2147483648)] = []"
  by (simp add: units_of_def static_cast_int_def)



subsection \<open>Runs that miss what the spec promises\<close>

text \<open>
  Claim C4 at a string tensor whose block has two elements. Data
  \<open>[[a, b], [c, d]]\<close>, axis 0, indices \<open>[1]\<close>: the output has shape \<open>[1,2]\<close> and the
  selected slice is \<open>[c, d]\<close>. The closure assigns one string per gather unit, the
  first of the block (lines 86 and 87), so the second slot of the output keeps the empty
  string that the host put there.
\<close>

theorem C4_string_block_evaluated:
  "Compute \<lparr>axis_attr = 0\<rparr> strings_2x2 = Some (OK, Strs [''c'', ''''])
   \<and> chunks_of 1 (OperatorThreadPool strings_2x2)
   \<and> map_sum id (\<lambda>p. Shape (output_tensor p)) (PrepareForCompute \<lparr>axis_attr = 0\<rparr> strings_2x2)
       = Inr [1, 2]"
  by code_simp

text \<open>
  Claim C6 at a string tensor of shape \<open>[1,2]\<close>: data \<open>[[a, b]]\<close>, axis 0, indices
  \<open>[0]\<close>, which is \<open>[0, ..., dim - 1]\<close> for \<open>dim = 1\<close>. The output is \<open>a\<close> followed
  by the empty string, not the input.
\<close>

theorem C6_identity_evaluated:
  "Compute \<lparr>axis_attr = 0\<rparr> strings_identity = Some (OK, Strs [''a'', ''''])
   \<and> Data (Input0 strings_identity) = Strs [''a'', ''b'']
   \<and> Data (Input1 strings_identity) = I64 [0]
   \<and> chunks_of 1 (OperatorThreadPool strings_identity)"
  by code_simp

lemma two_gib_seq:
  "Compute \<lparr>axis_attr = 1\<rparr> two_gib = Some (OK, Raw (replicate 2147483648 0))"
proof -
  have h1: "- NumDimensions (Shape (Input0 two_gib)) \<le> axis_attr \<lparr>axis_attr = 1\<rparr>"
    and h2: "axis_attr \<lparr>axis_attr = 1\<rparr> < NumDimensions (Shape (Input0 two_gib))"
    by (simp_all add: two_gib_def NumDimensions_def)
  show ?thesis
    unfolding Compute_valid [OF h1 h2]
    by (simp add: two_gib_def NumDimensions_def DataAsSpan_int64_def GatherCopyData_def
        Size_def check_indices.simps get_index64_def TryParallelFor_units
        sequential_run_past_int_max)
qed


lemma two_gib_chunked:
  "Compute \<lparr>axis_attr = 1\<rparr> (two_gib\<lparr>OperatorThreadPool := [(0, 1), (1, 2147483648)]\<rparr>)
     = Some (OK, Raw (1 # replicate 2147483647 0))"
proof -
  let ?ctx = "two_gib\<lparr>OperatorThreadPool := [(0, 1), (1, 2147483648)]\<rparr>"
  have h1: "- NumDimensions (Shape (Input0 ?ctx)) \<le> axis_attr \<lparr>axis_attr = 1\<rparr>"
    and h2: "axis_attr \<lparr>axis_attr = 1\<rparr> < NumDimensions (Shape (Input0 ?ctx))"
    by (simp_all add: two_gib_def NumDimensions_def)
  have u: "units_of [(0, 1), (1, 2147483648)] = [0]"
    by (simp add: units_of_def static_cast_int_def)
  have r: "replicate 2147483648 (0::byte) = 0 # replicate 2147483647 0"
    by (simp add: replicate_Suc [symmetric] del: replicate_Suc)
  show ?thesis
    unfolding Compute_valid [OF h1 h2]
    by (simp add: two_gib_def NumDimensions_def DataAsSpan_int64_def GatherCopyData_def
        Size_def SizeFromDimension_def SizeToDimension_def check_indices.simps get_index64_def
        TryParallelFor_units u lambda_def memcpy_def r)
qed

text \<open>
  Claim C8 at \<open>M * N = 2^31\<close> units. Run as the single chunk \<open>[0, 2^31)\<close>, the worker
  computes \<^verbatim>\<open>end = static_cast<int>(2^31) = -2^31\<close> and copies nothing. Run as the chunks
  \<open>[0, 1)\<close> and \<open>[1, 2^31)\<close>, it copies unit 0 and nothing else. The two outputs differ.
\<close>

theorem C8_chunking_evaluated:
  "chunks_of 2147483648 [(0, 2147483648)]
   \<and> chunks_of 2147483648 [(0, 1), (1, 2147483648)]
   \<and> Compute \<lparr>axis_attr = 1\<rparr> (two_gib\<lparr>OperatorThreadPool := [(0, 2147483648)]\<rparr>)
       = Some (OK, Raw (replicate 2147483648 0))
   \<and> Compute \<lparr>axis_attr = 1\<rparr> (two_gib\<lparr>OperatorThreadPool := [(0, 1), (1, 2147483648)]\<rparr>)
       = Some (OK, Raw (1 # replicate 2147483647 0))
   \<and> replicate 2147483648 (0::byte) \<noteq> 1 # replicate 2147483647 0"
proof -
  have "two_gib\<lparr>OperatorThreadPool := [(0, 2147483648)]\<rparr> = two_gib"
    by (simp add: two_gib_def)
  moreover have "replicate 2147483648 (0::byte) = 0 # replicate 2147483647 0"
    by (simp add: replicate_Suc [symmetric] del: replicate_Suc)
  ultimately show ?thesis
    using two_gib_seq two_gib_chunked by (simp add: chunks_of_def)
qed

subsection \<open>Negative indices\<close>

lemma check_indices_same_resolved:
  assumes "same_resolved lim g g'"
  shows "check_indices g N lim i = check_indices g' N lim i"
  using assms
proof (induction g N lim i rule: check_indices.induct)
  case (1 g N lim i)
  show ?case
  proof (cases "i < N")
    case False
    then show ?thesis
      by (simp add: check_indices.simps [of g] check_indices.simps [of g'])
  next
    case True
    from "1.prems" consider (eq) "g i = g' i"
      | (res) a b where "g i = Some a" "g' i = Some b" "- lim \<le> a" "a < lim" "- lim \<le> b" "b < lim"
      unfolding same_resolved_def by blast
    then show ?thesis
    proof cases
      case eq
      show ?thesis
      proof (cases "g i")
        case None
        then show ?thesis
          using True eq by (simp add: check_indices.simps [of g N lim i] check_indices.simps [of g' N lim i])
      next
        case (Some idx)
        have g': "g' i = Some idx"
          using eq Some by simp
        show ?thesis
        proof (cases "idx < - lim \<or> lim \<le> idx")
          case bad: True
          then show ?thesis
            using True g' Some
            by (simp add: check_indices.simps [of g N lim i] check_indices.simps [of g' N lim i])
        next
          case good: False
          have "check_indices g N lim (i + 1) = check_indices g' N lim (i + 1)"
            using True Some good "1.prems" by (intro "1.IH") auto
          then show ?thesis
            using True g' Some good
            by (simp add: check_indices.simps [of g N lim i] check_indices.simps [of g' N lim i])
        qed
      qed
    next
      case res
      have "check_indices g N lim (i + 1) = check_indices g' N lim (i + 1)"
        using True res "1.prems" by (intro "1.IH") auto
      then show ?thesis
        using True res
        by (simp add: check_indices.simps [of g N lim i] check_indices.simps [of g' N lim i])
    qed
  qed
qed

lemma lambda_same_resolved:
  assumes "same_resolved lim g g'"
  shows "lambda g src s eb bs N dbb gbb lim index dst = lambda g' src s eb bs N dbb gbb lim index dst"
proof (cases "N = 0")
  case True
  then show ?thesis by (simp add: lambda_def)
next
  case False
  from assms consider (eq) "g (index smod N) = g' (index smod N)"
    | (res) a b where "g (index smod N) = Some a" "g' (index smod N) = Some b"
        "(if a < 0 then a + lim else a) = (if b < 0 then b + lim else b)"
    unfolding same_resolved_def by blast
  then show ?thesis
  proof cases
    case eq
    then show ?thesis
      by (simp add: lambda_def Let_def)
  next
    case res
    then show ?thesis
      using False by (simp add: lambda_def Let_def)
  qed
qed

lemma GatherCopyData_same_resolved:
  assumes "same_resolved (shp ! nat ax) g g'"
  shows "GatherCopyData g src dst s eb bs M N dbb gbb shp ax tp
         = GatherCopyData g' src dst s eb bs M N dbb gbb shp ax tp"
proof -
  have l: "lambda g src s eb bs N dbb gbb (shp ! nat ax) = lambda g' src s eb bs N dbb gbb (shp ! nat ax)"
    by (intro ext lambda_same_resolved [OF assms])
  show ?thesis
    by (simp only: GatherCopyData_def Let_def check_indices_same_resolved [OF assms] l)
qed


lemma nth_map_int:
  "0 \<le> i \<Longrightarrow> i < int (length ws) \<Longrightarrow> map f ws ! nat i = f (ws ! nat i)"
  by (rule nth_map) linarith

lemma get_index32_value: "get_index32 ws = get_value (map sint ws)"
  by (rule ext) (simp add: get_index32_def get_value_def nth_map_int)

lemma get_index64_value: "get_index64 ws = get_value (map sint ws)"
  by (rule ext) (simp add: get_index64_def get_value_def nth_map_int)

lemma Compute_values:
  assumes "- NumDimensions (Shape (Input0 ctx)) \<le> axis_attr k"
    and "axis_attr k < NumDimensions (Shape (Input0 ctx))"
    and "index_values (Input1 ctx) = Some xs"
  shows "Compute k ctx =
     GatherCopyData (get_value xs) (Data (Input0 ctx)) (OutputBuf ctx)
       (DataType (Input0 ctx) = String) (element_bytes_of ctx) (block_size_of k ctx)
       (M_of k ctx) (N_of ctx) (data_batch_bytes_of k ctx) (gathered_batch_bytes_of k ctx)
       (Shape (Input0 ctx)) (axis_of k ctx) (OperatorThreadPool ctx)"
  using assms(3) unfolding Compute_valid [OF assms(1,2)]
  by (auto simp: index_values_def IsDataType_def get_index32_value get_index64_value
      axis_of_def element_bytes_of_def block_size_of_def M_of_def N_of_def
      data_batch_bytes_of_def gathered_batch_bytes_of_def split: if_splits)

lemma axis_of_range:
  assumes "- NumDimensions (Shape (Input0 ctx)) \<le> axis_attr k"
    and "axis_attr k < NumDimensions (Shape (Input0 ctx))"
  shows "0 \<le> axis_of k ctx" and "axis_of k ctx < int (length (Shape (Input0 ctx)))"
  using axis_range [OF assms] by (simp_all add: axis_of_def)

text \<open>
  Replacing, at any positions of the index tensor, an index \<open>-n\<close> by \<open>dim - n\<close> (for
  \<open>n\<close> from 1 to \<open>dim\<close>) changes neither the status nor the output of Compute, whatever
  the element kind, the sizes and the chunks are.
\<close>

lemma Compute_negative_index_equal:
  assumes "- NumDimensions (Shape (Input0 ctx)) \<le> axis_attr k"
    and "axis_attr k < NumDimensions (Shape (Input0 ctx))"
    and "index_values (Input1 ctx) = Some xs"
    and "index_values I' = Some xs'"
    and "Shape I' = Shape (Input1 ctx)"
    and "length xs' = length xs"
    and "\<forall>i<length xs. xs' ! i = xs ! i
           \<or> (\<exists>n. 1 \<le> n \<and> n \<le> axis_dim_limit_of k ctx
                 \<and> xs ! i = - n \<and> xs' ! i = axis_dim_limit_of k ctx - n)"
  shows "Compute k (ctx\<lparr>Input1 := I'\<rparr>) = Compute k ctx"
proof -
  let ?ctx' = "ctx\<lparr>Input1 := I'\<rparr>"
  let ?dim = "axis_dim_limit_of k ctx"
  have h1: "- NumDimensions (Shape (Input0 ?ctx')) \<le> axis_attr k"
    and h2: "axis_attr k < NumDimensions (Shape (Input0 ?ctx'))"
    and h3: "index_values (Input1 ?ctx') = Some xs'"
    using assms(1,2,4) by simp_all
  have r: "same_resolved ?dim (get_value xs') (get_value xs)"
    unfolding same_resolved_def
  proof
    fix i :: int
    show "get_value xs' i = get_value xs i
        \<or> (\<exists>a b. get_value xs' i = Some a \<and> get_value xs i = Some b \<and> - ?dim \<le> a \<and> a < ?dim
              \<and> - ?dim \<le> b \<and> b < ?dim
              \<and> (if a < 0 then a + ?dim else a) = (if b < 0 then b + ?dim else b))"
    proof (cases "0 \<le> i \<and> i < int (length xs)")
      case False
      then have "get_value xs' i = None" "get_value xs i = None"
        using assms(6) by (auto simp: get_value_def)
      then show ?thesis
        by simp
    next
      case True
      then have n: "nat i < length xs" by linarith
      from assms(7) n consider (eq) "xs' ! nat i = xs ! nat i"
        | (neg) n where "1 \<le> n" "n \<le> ?dim" "xs ! nat i = - n" "xs' ! nat i = ?dim - n"
        by blast
      then show ?thesis
      proof cases
        case eq
        then show ?thesis
          using True assms(6) by (simp add: get_value_def)
      next
        case neg
        then show ?thesis
          using True assms(6) by (simp add: get_value_def)
      qed
    qed
  qed
  have same: "element_bytes_of ?ctx' = element_bytes_of ctx" "block_size_of k ?ctx' = block_size_of k ctx"
    "M_of k ?ctx' = M_of k ctx" "N_of ?ctx' = N_of ctx"
    "data_batch_bytes_of k ?ctx' = data_batch_bytes_of k ctx"
    "gathered_batch_bytes_of k ?ctx' = gathered_batch_bytes_of k ctx"
    "axis_of k ?ctx' = axis_of k ctx"
    using assms(5)
    by (simp_all add: element_bytes_of_def block_size_of_def M_of_def N_of_def
        data_batch_bytes_of_def gathered_batch_bytes_of_def axis_of_def)
  show ?thesis
    unfolding Compute_values [OF h1 h2 h3] Compute_values [OF assms(1,2,3)] same
    using GatherCopyData_same_resolved [OF r [unfolded axis_dim_limit_of_def]]
    by simp
qed


subsection \<open>The copy of one gather unit\<close>

lemma splice_length:
  "d + n \<le> length dst \<Longrightarrow> s + n \<le> length src \<Longrightarrow>
   length (take d dst @ take n (drop s src) @ drop (d + n) dst) = length dst"
  by simp

lemma splice_nth:
  assumes "d + n \<le> length dst" and "s + n \<le> length src" and "j < length dst"
  shows "(take d dst @ take n (drop s src) @ drop (d + n) dst) ! j
         = (if d \<le> j \<and> j < d + n then src ! (s + (j - d)) else dst ! j)"
proof -
  have l1: "length (take d dst) = d"
    using assms(1) by simp
  have l2: "length (take n (drop s src)) = n"
    using assms(2) by simp
  consider (lo) "j < d" | (mid) "d \<le> j" "j < d + n" | (hi) "d + n \<le> j"
    by linarith
  then show ?thesis
  proof cases
    case lo
    then show ?thesis
      using assms(3) by (simp add: nth_append l1 del: length_take length_drop)
  next
    case mid
    then have "(take d dst @ take n (drop s src) @ drop (d + n) dst) ! j
               = take n (drop s src) ! (j - d)"
      by (simp add: nth_append l1 l2 del: length_take length_drop)
    also have "\<dots> = src ! (s + (j - d))"
      using mid assms(2) by simp
    finally show ?thesis
      using mid by simp
  next
    case hi
    then have "(take d dst @ take n (drop s src) @ drop (d + n) dst) ! j
               = drop (d + n) dst ! (j - d - n)"
      by (simp add: nth_append l1 l2 del: length_take length_drop)
    also have "\<dots> = dst ! j"
      using hi assms(1,3) by simp
    finally show ?thesis
      using hi by simp
  qed
qed

lemma memcpy_in_bounds:
  assumes "0 \<le> n" "0 \<le> d" "d + n \<le> int (length dst)" "0 \<le> s" "s + n \<le> int (length src)"
  shows "\<exists>dst'. memcpy dst d src s n = Some dst' \<and> length dst' = length dst
           \<and> (\<forall>j. 0 \<le> j \<and> j < n \<longrightarrow> dst' ! nat (d + j) = src ! nat (s + j))
           \<and> (\<forall>j. 0 \<le> j \<and> j < int (length dst) \<and> (j < d \<or> d + n \<le> j) \<longrightarrow> dst' ! nat j = dst ! nat j)"
proof -
  let ?r = "take (nat d) dst @ take (nat n) (drop (nat s) src) @ drop (nat (d + n)) dst"
  have dn: "nat (d + n) = nat d + nat n"
    using assms(1,2) by (simp add: nat_add_distrib)
  have b1: "nat d + nat n \<le> length dst" and b2: "nat s + nat n \<le> length src"
    using assms by linarith+
  have m: "memcpy dst d src s n = Some ?r"
    using assms by (simp add: memcpy_def)
  have len: "length ?r = length dst"
    unfolding dn by (rule splice_length [OF b1 b2])
  have mid: "?r ! nat (d + j) = src ! nat (s + j)" if "0 \<le> j" "j < n" for j
  proof -
    have j: "nat (d + j) < length dst" "nat d \<le> nat (d + j)" "nat (d + j) < nat d + nat n"
      using that assms by linarith+
    have "nat s + (nat (d + j) - nat d) = nat (s + j)"
      using that assms by linarith
    then show ?thesis
      unfolding dn using splice_nth [OF b1 b2 j(1)] j(2,3) by simp
  qed
  have out: "?r ! nat j = dst ! nat j" if "0 \<le> j" "j < int (length dst)" "j < d \<or> d + n \<le> j" for j
  proof -
    have j: "nat j < length dst" "\<not> (nat d \<le> nat j \<and> nat j < nat d + nat n)"
      using that assms by linarith+
    show ?thesis
      unfolding dn using splice_nth [OF b1 b2 j(1)] j(2) by simp
  qed
  show ?thesis
    using m len mid out by blast
qed

lemma sdiv_smod_nonneg:
  assumes "0 \<le> u" and "0 < N"
  shows "u sdiv N = u div (N::int)" and "u smod N = u mod N"
proof -
  show "u sdiv N = u div N"
  proof (cases "u = 0")
    case True
    then show ?thesis by simp
  next
    case False
    then have "sgn u = 1" "sgn N = 1" "\<bar>u\<bar> = u" "\<bar>N\<bar> = N"
      using assms by simp_all
    then show ?thesis
      by (simp add: signed_divide_int_def)
  qed
  show "u smod N = u mod N"
  proof (cases "u = 0")
    case True
    then show ?thesis by (simp add: signed_modulo_int_def)
  next
    case False
    then have "sgn u = 1" "\<bar>u\<bar> = u" "\<bar>N\<bar> = N"
      using assms by simp_all
    then show ?thesis
      by (simp add: signed_modulo_int_def)
  qed
qed

lemma Size_of_pos: "0 < Size_of t"
  by (cases t) simp_all

lemma prod_list_nonneg:
  "\<forall>d\<in>set xs. (0::int) \<le> d \<Longrightarrow> 0 \<le> prod_list xs"
  by (induction xs) simp_all

lemma Size_split_axis:
  assumes "n < length shp"
  shows "SizeFromDimension shp (int n) = shp ! n * SizeFromDimension shp (int n + 1)"
    and "Size shp = SizeToDimension shp (int n) * shp ! n * SizeFromDimension shp (int n + 1)"
proof -
  have d: "drop n shp = shp ! n # drop (Suc n) shp"
    using assms by (simp add: Cons_nth_drop_Suc)
  have n1: "nat (int n + 1) = Suc n"
    by simp
  show "SizeFromDimension shp (int n) = shp ! n * SizeFromDimension shp (int n + 1)"
    unfolding SizeFromDimension_def n1 by (simp add: d)
  have "prod_list shp = prod_list (take n shp @ drop n shp)"
    by simp
  also have "\<dots> = prod_list (take n shp) * (shp ! n * prod_list (drop (Suc n) shp))"
    unfolding prod_list.append d by simp
  finally show "Size shp = SizeToDimension shp (int n) * shp ! n * SizeFromDimension shp (int n + 1)"
    unfolding Size_def SizeToDimension_def SizeFromDimension_def n1 by (simp add: mult.assoc)
qed


lemma unit_decomposition:
  assumes "0 \<le> u" and "u < M * N" and "0 \<le> (M::int)"
  shows "0 < N" and "0 \<le> u div N" and "u div N < M" and "0 \<le> u mod N" and "u mod N < N"
proof -
  have "0 < M * N"
    using assms(1,2) by simp
  then show N: "0 < N"
    using assms(3) by (simp add: zero_less_mult_iff)
  show "0 \<le> u div N"
    using assms(1) N by (simp add: pos_imp_zdiv_nonneg_iff)
  show "0 \<le> u mod N" and "u mod N < N"
    using N by simp_all
  have "N * (u div N) + u mod N = u"
    by simp
  moreover have "0 \<le> u mod N"
    using N by simp
  ultimately have "N * (u div N) \<le> u"
    by linarith
  then have "N * (u div N) < N * M"
    using assms(2) by (simp add: mult.commute)
  then show "u div N < M"
    using N by simp
qed

lemma unit_offsets_in_bounds:
  fixes M N dim bs batch i r :: int
  assumes "0 \<le> bs" and "0 \<le> batch" and "batch < M" and "0 \<le> i" and "i < N"
    and "0 \<le> r" and "r < dim"
  shows "0 \<le> batch * (dim * bs) + r * bs"
    and "batch * (dim * bs) + r * bs + bs \<le> M * dim * bs"
    and "0 \<le> batch * (N * bs) + i * bs"
    and "batch * (N * bs) + i * bs + bs \<le> M * N * bs"
proof -
  have dim: "0 < dim" and N: "0 < N"
    using assms by simp_all
  show "0 \<le> batch * (dim * bs) + r * bs"
    using assms dim by simp
  show "0 \<le> batch * (N * bs) + i * bs"
    using assms N by simp
  have "batch * dim \<le> (M - 1) * dim"
    using assms dim by (intro mult_right_mono) simp_all
  then have "batch * dim + r + 1 \<le> (M - 1) * dim + dim"
    using assms by linarith
  then have "batch * dim + r + 1 \<le> M * dim"
    by (simp add: algebra_simps)
  then have "(batch * dim + r + 1) * bs \<le> M * dim * bs"
    using assms(1) by (rule mult_right_mono)
  then show "batch * (dim * bs) + r * bs + bs \<le> M * dim * bs"
    by (simp add: algebra_simps)
  have "batch * N \<le> (M - 1) * N"
    using assms N by (intro mult_right_mono) simp_all
  then have "batch * N + i + 1 \<le> (M - 1) * N + N"
    using assms by linarith
  then have "batch * N + i + 1 \<le> M * N"
    by (simp add: algebra_simps)
  then have "(batch * N + i + 1) * bs \<le> M * N * bs"
    using assms(1) by (rule mult_right_mono)
  then show "batch * (N * bs) + i * bs + bs \<le> M * N * bs"
    by (simp add: algebra_simps)
qed

lemma Compute_strides:
  assumes "- NumDimensions (Shape (Input0 ctx)) \<le> axis_attr k"
    and "axis_attr k < NumDimensions (Shape (Input0 ctx))"
  shows "data_batch_bytes_of k ctx = axis_dim_limit_of k ctx * block_size_of k ctx"
    and "gathered_batch_bytes_of k ctx = N_of ctx * block_size_of k ctx"
    and "Size (Shape (Input0 ctx)) * element_bytes_of ctx
         = M_of k ctx * axis_dim_limit_of k ctx * block_size_of k ctx"
proof -
  let ?shp = "Shape (Input0 ctx)"
  have a: "0 \<le> axis_of k ctx" "nat (axis_of k ctx) < length ?shp"
    using axis_of_range [OF assms] by simp_all
  have ia: "int (nat (axis_of k ctx)) = axis_of k ctx"
    using a(1) by simp
  note sp = Size_split_axis [OF a(2), unfolded ia]
  show "data_batch_bytes_of k ctx = axis_dim_limit_of k ctx * block_size_of k ctx"
    by (simp add: data_batch_bytes_of_def axis_dim_limit_of_def block_size_of_def sp(1))
  show "gathered_batch_bytes_of k ctx = N_of ctx * block_size_of k ctx"
    by (simp add: gathered_batch_bytes_of_def block_size_of_def)
  show "Size ?shp * element_bytes_of ctx
         = M_of k ctx * axis_dim_limit_of k ctx * block_size_of k ctx"
    by (simp add: M_of_def axis_dim_limit_of_def block_size_of_def sp(2))
qed

lemma Compute_sizes_nonneg:
  assumes "\<forall>d\<in>set (Shape (Input0 ctx)). 0 \<le> d"
  shows "0 \<le> M_of k ctx" and "0 \<le> block_size_of k ctx"
proof -
  have "\<forall>d\<in>set (take n (Shape (Input0 ctx))). 0 \<le> d" for n
    using assms by (meson in_set_takeD)
  then show "0 \<le> M_of k ctx"
    unfolding M_of_def SizeToDimension_def by (rule prod_list_nonneg)
  have "\<forall>d\<in>set (drop n (Shape (Input0 ctx))). 0 \<le> d" for n
    using assms by (meson in_set_dropD)
  then have "0 \<le> SizeFromDimension (Shape (Input0 ctx)) (axis_of k ctx + 1)"
    unfolding SizeFromDimension_def by (rule prod_list_nonneg)
  then show "0 \<le> block_size_of k ctx"
    using Size_of_pos [of "DataType (Input0 ctx)"]
    by (simp add: block_size_of_def element_bytes_of_def)
qed


lemma lambda_fixed_width:
  assumes N: "0 < N" and u: "0 \<le> u"
    and g: "get_index (u mod N) = Some idx"
    and m: "memcpy dst (u div N * gbb + u mod N * bs) src
              (u div N * dbb + (if idx < 0 then idx + lim else idx) * bs) bs = Some dst'"
  shows "lambda get_index (Raw src) False eb bs N dbb gbb lim u (Raw dst) = Some (Raw dst')"
  using N g m by (simp add: lambda_def Let_def sdiv_smod_nonneg [OF u N])

text \<open>
  One call of the closure. Take a fixed-width data tensor, whose buffer holds the \<open>Size\<close>
  elements of its shape, a valid axis, indices that have passed the validation, and output
  memory of the size of the output shape (\<open>M * N * block_size\<close> bytes). Then for every
  gather unit \<open>u\<close> in \<open>[0, M * N)\<close>, with \<open>batch = u / N\<close> and \<open>i = u % N\<close>, the closure
  that Compute hands to the engine, called on \<open>u\<close>, copies exactly \<open>block_size\<close> bytes from
  the source offset \<open>batch * data_batch_stride + resolve(i) * block_size\<close> to the
  destination offset \<open>batch * gathered_batch_stride + i * block_size\<close>: the copy is inside
  both buffers, the bytes of the destination block are those of the source block, and every
  other byte of the destination is unchanged. The strides are
  \<open>data_batch_stride = input.shape[axis] * block_size\<close> and
  \<open>gathered_batch_stride = N * block_size\<close>. Whether the engine calls the closure on \<open>u\<close>
  is another matter: that is up to the chunk worker.
\<close>

lemma lambda_unit_copy:
  fixes get_index :: "int \<Rightarrow> int option" and src dst :: "byte list" and u :: int
  assumes "- NumDimensions (Shape (Input0 ctx)) \<le> axis_attr k"
    and "axis_attr k < NumDimensions (Shape (Input0 ctx))"
    and "\<forall>d\<in>set (Shape (Input0 ctx)). 0 \<le> d"
    and "DataType (Input0 ctx) \<noteq> String" and "Data (Input0 ctx) = Raw src"
    and "int (length src) = Size (Shape (Input0 ctx)) * element_bytes_of ctx"
    and "int (length dst) = M_of k ctx * N_of ctx * block_size_of k ctx"
    and "\<forall>i. 0 \<le> i \<and> i < N_of ctx \<longrightarrow>
           (\<exists>idx. get_index i = Some idx \<and> - axis_dim_limit_of k ctx \<le> idx
                  \<and> idx < axis_dim_limit_of k ctx)"
    and "0 \<le> u" and "u < M_of k ctx * N_of ctx"
  defines "batch \<equiv> u div N_of ctx"
  defines "i \<equiv> u mod N_of ctx"
  defines "block_size_bytes \<equiv> block_size_of k ctx"
  defines "data_batch_stride \<equiv> data_batch_bytes_of k ctx"
  defines "gathered_batch_stride \<equiv> gathered_batch_bytes_of k ctx"
  shows "\<exists>idx dst'.
           get_index i = Some idx
         \<and> u sdiv N_of ctx = batch \<and> u smod N_of ctx = i
         \<and> data_batch_stride = axis_dim_limit_of k ctx * block_size_bytes
         \<and> gathered_batch_stride = N_of ctx * block_size_bytes
         \<and> lambda get_index (Data (Input0 ctx)) (DataType (Input0 ctx) = String)
              (element_bytes_of ctx) block_size_bytes (N_of ctx)
              data_batch_stride gathered_batch_stride (axis_dim_limit_of k ctx) u (Raw dst)
             = Some (Raw dst')
         \<and> length dst' = length dst
         \<and> (\<forall>j. 0 \<le> j \<and> j < block_size_bytes \<longrightarrow>
                dst' ! nat (batch * gathered_batch_stride + i * block_size_bytes + j)
                = src ! nat (batch * data_batch_stride
                             + (if idx < 0 then idx + axis_dim_limit_of k ctx else idx)
                               * block_size_bytes + j))
         \<and> (\<forall>j. 0 \<le> j \<and> j < int (length dst)
                  \<and> (j < batch * gathered_batch_stride + i * block_size_bytes
                      \<or> batch * gathered_batch_stride + i * block_size_bytes + block_size_bytes \<le> j)
                \<longrightarrow> dst' ! nat j = dst ! nat j)"
proof -
  let ?N = "N_of ctx" and ?M = "M_of k ctx" and ?bs = "block_size_of k ctx"
  let ?dim = "axis_dim_limit_of k ctx"
  note st = Compute_strides [OF assms(1,2)]
  note nn = Compute_sizes_nonneg [OF assms(3), of k]
  note ud = unit_decomposition [OF assms(9,10) nn(1)]
  from assms(8) ud(4,5) obtain idx where idx: "get_index i = Some idx" "- ?dim \<le> idx" "idx < ?dim"
    unfolding i_def by blast
  define r where "r = (if idx < 0 then idx + ?dim else idx)"
  have r: "0 \<le> r" "r < ?dim"
    using idx(2,3) by (simp_all add: r_def)
  note ob = unit_offsets_in_bounds [OF nn(2) ud(2,3,4,5) r]
  let ?d = "batch * gathered_batch_stride + i * block_size_bytes"
  let ?s = "batch * data_batch_stride + r * block_size_bytes"
  have d: "?d = u div ?N * (?N * ?bs) + u mod ?N * ?bs"
    and s: "?s = u div ?N * (?dim * ?bs) + r * ?bs"
    by (simp_all add: batch_def i_def block_size_bytes_def gathered_batch_stride_def
        data_batch_stride_def st(1,2))
  have b: "0 \<le> ?bs" "0 \<le> ?d" "?d + ?bs \<le> int (length dst)" "0 \<le> ?s"
    "?s + ?bs \<le> int (length src)"
    using nn(2) ob unfolding d s assms(6,7) st(3) by simp_all
  have "\<exists>dst'. memcpy dst ?d src ?s ?bs = Some dst' \<and> length dst' = length dst
           \<and> (\<forall>j. 0 \<le> j \<and> j < ?bs \<longrightarrow> dst' ! nat (?d + j) = src ! nat (?s + j))
           \<and> (\<forall>j. 0 \<le> j \<and> j < int (length dst) \<and> (j < ?d \<or> ?d + ?bs \<le> j)
                  \<longrightarrow> dst' ! nat j = dst ! nat j)"
    by (rule memcpy_in_bounds [OF b])
  then obtain dst' where m: "memcpy dst ?d src ?s ?bs = Some dst'"
    and len: "length dst' = length dst"
    and mid: "\<forall>j. 0 \<le> j \<and> j < ?bs \<longrightarrow> dst' ! nat (?d + j) = src ! nat (?s + j)"
    and out: "\<forall>j. 0 \<le> j \<and> j < int (length dst) \<and> (j < ?d \<or> ?d + ?bs \<le> j)
                  \<longrightarrow> dst' ! nat j = dst ! nat j"
    by blast
  have "lambda get_index (Raw src) False (element_bytes_of ctx) block_size_bytes ?N
              data_batch_stride gathered_batch_stride ?dim u (Raw dst) = Some (Raw dst')"
    using idx(1) m unfolding i_def batch_def block_size_bytes_def r_def
    by (intro lambda_fixed_width [OF ud(1) assms(9)]) simp_all
  then have lam: "lambda get_index (Data (Input0 ctx)) (DataType (Input0 ctx) = String)
              (element_bytes_of ctx) block_size_bytes ?N
              data_batch_stride gathered_batch_stride ?dim u (Raw dst) = Some (Raw dst')"
    using assms(4,5) by simp
  have sd: "u sdiv ?N = batch" "u smod ?N = i"
    using sdiv_smod_nonneg [OF assms(9) ud(1)] by (simp_all add: batch_def i_def)
  show ?thesis
    using idx(1) sd st(1,2) lam len mid out
    unfolding r_def block_size_bytes_def [symmetric] data_batch_stride_def [symmetric]
      gathered_batch_stride_def [symmetric]
    by (intro exI [where x = idx] exI [where x = dst'] conjI) (assumption | simp)+
qed

lemma lambda_unit_copy_scenario1:
  "Shape (Input0 scenario1) = [3, 4]
   \<and> Data (Input0 scenario1) = Raw [0, 1, 2, 3, 10, 11, 12, 13, 20, 21, 22, 23]
   \<and> M_of \<lparr>axis_attr = 0\<rparr> scenario1 = 1 \<and> N_of scenario1 = 2
   \<and> block_size_of \<lparr>axis_attr = 0\<rparr> scenario1 = 4
   \<and> axis_dim_limit_of \<lparr>axis_attr = 0\<rparr> scenario1 = 3
   \<and> get_value [0, 2] 0 = Some 0 \<and> get_value [0, 2] 1 = Some 2
   \<and> (\<exists>dst'. lambda (get_value [0, 2]) (Data (Input0 scenario1))
                 (DataType (Input0 scenario1) = String) 1 4 2 12 8 3 1 (Raw (replicate 8 0))
               = Some (Raw dst')
             \<and> length dst' = 8
             \<and> dst' ! 4 = 20 \<and> dst' ! 7 = 23 \<and> dst' ! 3 = 0)"
proof -
  let ?k = "\<lparr>axis_attr = 0\<rparr>"
  let ?src = "[0, 1, 2, 3, 10, 11, 12, 13, 20, 21, 22, 23] :: byte list"
  let ?dst = "replicate 8 0 :: byte list"
  have ax: "axis_of ?k scenario1 = 0"
    by (simp add: axis_of_def scenario1_def)
  have v: "M_of ?k scenario1 = 1" "N_of scenario1 = 2" "block_size_of ?k scenario1 = 4"
    "axis_dim_limit_of ?k scenario1 = 3" "element_bytes_of scenario1 = 1"
    "data_batch_bytes_of ?k scenario1 = 12" "gathered_batch_bytes_of ?k scenario1 = 8"
    by (simp_all add: M_of_def N_of_def block_size_of_def axis_dim_limit_of_def
        element_bytes_of_def data_batch_bytes_of_def gathered_batch_bytes_of_def ax
        SizeToDimension_def SizeFromDimension_def Size_def, simp_all add: scenario1_def)
  have g: "get_value [0, 2] 0 = Some 0" "get_value [0, 2] 1 = Some 2"
    by (simp_all add: get_value_def)
  have h1: "- NumDimensions (Shape (Input0 scenario1)) \<le> axis_attr ?k"
    and h2: "axis_attr ?k < NumDimensions (Shape (Input0 scenario1))"
    and h3: "\<forall>d\<in>set (Shape (Input0 scenario1)). 0 \<le> d"
    and h4: "DataType (Input0 scenario1) \<noteq> String"
    and h5: "Data (Input0 scenario1) = Raw ?src"
    and h6: "int (length ?src) = Size (Shape (Input0 scenario1)) * element_bytes_of scenario1"
    by (simp_all add: scenario1_def NumDimensions_def Size_def element_bytes_of_def)
  have h7: "int (length ?dst) = M_of ?k scenario1 * N_of scenario1 * block_size_of ?k scenario1"
    by (simp add: v)
  have h8: "\<forall>i. 0 \<le> i \<and> i < N_of scenario1 \<longrightarrow>
           (\<exists>idx. get_value [0, 2] i = Some idx \<and> - axis_dim_limit_of ?k scenario1 \<le> idx
                  \<and> idx < axis_dim_limit_of ?k scenario1)"
  proof (intro allI impI)
    fix i :: int
    assume "0 \<le> i \<and> i < N_of scenario1"
    then have "i = 0 \<or> i = 1"
      unfolding v by linarith
    then show "\<exists>idx. get_value [0, 2] i = Some idx \<and> - axis_dim_limit_of ?k scenario1 \<le> idx
                  \<and> idx < axis_dim_limit_of ?k scenario1"
      using g unfolding v by auto
  qed
  have h9: "0 \<le> (1::int)" and h10: "1 < M_of ?k scenario1 * N_of scenario1"
    by (simp_all add: v)
  from lambda_unit_copy [OF h1 h2 h3 h4 h5 h6 h7 h8 h9 h10]
  obtain idx dst' where i: "get_value [0, 2] (1 mod N_of scenario1) = Some idx"
    and l: "lambda (get_value [0, 2]) (Data (Input0 scenario1)) (DataType (Input0 scenario1) = String)
              (element_bytes_of scenario1) (block_size_of ?k scenario1) (N_of scenario1)
              (data_batch_bytes_of ?k scenario1) (gathered_batch_bytes_of ?k scenario1)
              (axis_dim_limit_of ?k scenario1) 1 (Raw ?dst) = Some (Raw dst')"
    and len: "length dst' = length ?dst"
    and mid: "\<forall>j. 0 \<le> j \<and> j < block_size_of ?k scenario1 \<longrightarrow>
                dst' ! nat (1 div N_of scenario1 * gathered_batch_bytes_of ?k scenario1
                            + 1 mod N_of scenario1 * block_size_of ?k scenario1 + j)
                = ?src ! nat (1 div N_of scenario1 * data_batch_bytes_of ?k scenario1
                             + (if idx < 0 then idx + axis_dim_limit_of ?k scenario1 else idx)
                               * block_size_of ?k scenario1 + j)"
    and out: "\<forall>j. 0 \<le> j \<and> j < int (length ?dst)
                  \<and> (j < 1 div N_of scenario1 * gathered_batch_bytes_of ?k scenario1
                            + 1 mod N_of scenario1 * block_size_of ?k scenario1
                      \<or> 1 div N_of scenario1 * gathered_batch_bytes_of ?k scenario1
                            + 1 mod N_of scenario1 * block_size_of ?k scenario1
                            + block_size_of ?k scenario1 \<le> j)
                \<longrightarrow> dst' ! nat j = ?dst ! nat j"
    by blast
  have idx: "idx = 2"
    using i g unfolding v by simp
  have "dst' ! 4 = 20"
    using mid [rule_format, of 0] unfolding v idx by simp
  moreover have "dst' ! 7 = 23"
    using mid [rule_format, of 3] unfolding v idx by simp
  moreover have "dst' ! 3 = 0"
    using out [rule_format, of 3] unfolding v by simp
  moreover have "length dst' = 8"
    using len by simp
  moreover have "lambda (get_value [0, 2]) (Data (Input0 scenario1))
                 (DataType (Input0 scenario1) = String) 1 4 2 12 8 3 1 (Raw (replicate 8 0))
               = Some (Raw dst')"
    using l unfolding v .
  moreover have "Shape (Input0 scenario1) = [3, 4]"
    by (simp add: scenario1_def)
  ultimately show ?thesis
    using h5 v(1-4) g by blast
qed

subsection \<open>A whole run on a fixed-width tensor\<close>

text \<open>
  For a fixed-width tensor and at most \<open>2^31 - 1\<close> gather units, every run of Compute over
  chunks that partition the units returns OK with the output of the spec
  (\<open>Compute_fixed_width\<close>). Then the output does not depend on the chunks
  (\<open>Compute_chunking_independent\<close>), and the indices \<open>[0, ..., dim - 1]\<close> give back the
  bytes of the input (\<open>Compute_identity_fixed_width\<close>). Both bounds are needed: see the
  runs evaluated for claims C4, C6 and C8.
\<close>

lemma lambda_copy_block:
  fixes M N dim bs u :: int
  assumes "0 \<le> M" and "0 \<le> bs" and "0 \<le> u" and "u < M * N"
    and "get_index (u mod N) = Some idx" and "- dim \<le> idx" and "idx < dim"
    and "int (length src) = M * dim * bs" and "int (length dst) = M * N * bs"
  shows "\<exists>dst'. lambda get_index (Raw src) False eb bs N (dim * bs) (N * bs) dim u (Raw dst)
                  = Some (Raw dst')
           \<and> length dst' = length dst
           \<and> (\<forall>j. 0 \<le> j \<and> j < bs \<longrightarrow>
                  dst' ! nat (u * bs + j) = src ! nat ((u div N * dim + spec_resolve dim idx) * bs + j))
           \<and> (\<forall>p. 0 \<le> p \<and> p < int (length dst) \<and> (p < u * bs \<or> u * bs + bs \<le> p) \<longrightarrow>
                  dst' ! nat p = dst ! nat p)"
proof -
  note ud = unit_decomposition [OF assms(3,4,1)]
  have r: "0 \<le> spec_resolve dim idx" "spec_resolve dim idx < dim"
    using assms(6,7) by (simp_all add: spec_resolve_def)
  note ob = unit_offsets_in_bounds [OF assms(2) ud(2,3,4,5) r]
  let ?d = "u div N * (N * bs) + u mod N * bs"
  let ?s = "u div N * (dim * bs) + spec_resolve dim idx * bs"
  have d: "?d = u * bs"
  proof -
    have e: "u div N * N + u mod N = u"
      by simp
    have "u * bs = (u div N * N + u mod N) * bs"
      by (simp only: e)
    also have "\<dots> = ?d"
      by (simp only: distrib_right mult.assoc)
    finally show ?thesis
      by simp
  qed
  have s: "?s = (u div N * dim + spec_resolve dim idx) * bs"
    by (simp add: algebra_simps)
  have b: "0 \<le> bs" "0 \<le> ?d" "?d + bs \<le> int (length dst)" "0 \<le> ?s" "?s + bs \<le> int (length src)"
    using assms(2) ob unfolding assms(8,9) by simp_all
  from memcpy_in_bounds [OF b] obtain dst' where m: "memcpy dst ?d src ?s bs = Some dst'"
    and len: "length dst' = length dst"
    and mid: "\<forall>j. 0 \<le> j \<and> j < bs \<longrightarrow> dst' ! nat (?d + j) = src ! nat (?s + j)"
    and out: "\<forall>j. 0 \<le> j \<and> j < int (length dst) \<and> (j < ?d \<or> ?d + bs \<le> j)
                  \<longrightarrow> dst' ! nat j = dst ! nat j"
    by blast
  have "lambda get_index (Raw src) False eb bs N (dim * bs) (N * bs) dim u (Raw dst) = Some (Raw dst')"
    using assms(5) m unfolding spec_resolve_def
    by (intro lambda_fixed_width [OF ud(1) assms(3)]) simp_all
  then show ?thesis
    using len mid out unfolding d s by blast
qed

lemma blocks_disjoint:
  fixes u w bs p :: int
  assumes "u * bs \<le> p" "p < u * bs + bs" "w * bs \<le> p" "p < w * bs + bs"
  shows "u = w"
proof -
  have bs: "0 < bs"
    using assms(1,2) by simp
  have "u * bs < (w + 1) * bs" and "w * bs < (u + 1) * bs"
    using assms by (simp_all add: algebra_simps)
  then have "u < w + 1" and "w < u + 1"
    using bs by (simp_all add: mult_less_cancel_right)
  then show ?thesis by simp
qed

lemma run_units_copy_blocks:
  fixes M N dim bs :: int
  assumes "0 \<le> M" and "0 \<le> bs"
    and "\<forall>i. 0 \<le> i \<and> i < N \<longrightarrow> (\<exists>idx. get_index i = Some idx \<and> - dim \<le> idx \<and> idx < dim)"
    and "int (length src) = M * dim * bs"
    and "int (length dst) = M * N * bs"
    and "\<forall>u\<in>set us. 0 \<le> u \<and> u < M * N"
  shows "\<exists>dst'. run_units (lambda get_index (Raw src) False eb bs N (dim * bs) (N * bs) dim) us (Raw dst)
                  = Some (Raw dst')
           \<and> length dst' = length dst
           \<and> (\<forall>u\<in>set us. \<forall>j. 0 \<le> j \<and> j < bs \<longrightarrow>
                  dst' ! nat (u * bs + j)
                  = src ! nat ((u div N * dim + spec_resolve dim (the (get_index (u mod N)))) * bs + j))
           \<and> (\<forall>p. 0 \<le> p \<and> p < int (length dst) \<and> (\<forall>u\<in>set us. p < u * bs \<or> u * bs + bs \<le> p) \<longrightarrow>
                  dst' ! nat p = dst ! nat p)"
  using assms(5,6)
proof (induction us arbitrary: dst)
  case Nil
  then show ?case by simp
next
  case (Cons u us)
  let ?lam = "lambda get_index (Raw src) False eb bs N (dim * bs) (N * bs) dim"
  let ?exp = "\<lambda>u j. src ! nat ((u div N * dim + spec_resolve dim (the (get_index (u mod N)))) * bs + j)"
  have u: "0 \<le> u" "u < M * N"
    using Cons.prems(2) by simp_all
  note ud = unit_decomposition [OF u assms(1)]
  from assms(3) ud(4,5) obtain idx where idx: "get_index (u mod N) = Some idx" "- dim \<le> idx" "idx < dim"
    by blast
  from lambda_copy_block [where get_index = get_index and M = M and N = N and u = u and eb = eb,
      OF assms(1,2) u idx assms(4) Cons.prems(1)]
  obtain d1 where l: "?lam u (Raw dst) = Some (Raw d1)"
    and len1: "length d1 = length dst"
    and mid1: "\<forall>j. 0 \<le> j \<and> j < bs \<longrightarrow> d1 ! nat (u * bs + j) = ?exp u j"
    and out1: "\<forall>p. 0 \<le> p \<and> p < int (length dst) \<and> (p < u * bs \<or> u * bs + bs \<le> p) \<longrightarrow>
                  d1 ! nat p = dst ! nat p"
    using idx(1) by auto
  have p1: "int (length d1) = M * N * bs"
    using len1 Cons.prems(1) by simp
  have p2: "\<forall>u\<in>set us. 0 \<le> u \<and> u < M * N"
    using Cons.prems(2) by simp
  from Cons.IH [OF p1 p2] obtain d2 where r: "run_units ?lam us (Raw d1) = Some (Raw d2)"
    and len2: "length d2 = length d1"
    and mid2: "\<forall>v\<in>set us. \<forall>j. 0 \<le> j \<and> j < bs \<longrightarrow> d2 ! nat (v * bs + j) = ?exp v j"
    and out2: "\<forall>p. 0 \<le> p \<and> p < int (length d1) \<and> (\<forall>v\<in>set us. p < v * bs \<or> v * bs + bs \<le> p) \<longrightarrow>
                  d2 ! nat p = d1 ! nat p"
    by blast
  have run: "run_units ?lam (u # us) (Raw dst) = Some (Raw d2)"
    using l r by simp
  have mid: "d2 ! nat (v * bs + j) = ?exp v j" if v: "v \<in> set (u # us)" and j: "0 \<le> j" "j < bs" for v j
  proof (cases "v \<in> set us")
    case True
    then show ?thesis using mid2 j by blast
  next
    case False
    then have vu: "v = u" using v by simp
    let ?p = "u * bs + j"
    have pb: "0 \<le> ?p" "?p < int (length d1)"
    proof -
      show "0 \<le> ?p" using u(1) assms(2) j by simp
      have "(u + 1) * bs \<le> M * N * bs"
        using u(2) assms(2) by (intro mult_right_mono) simp_all
      then show "?p < int (length d1)"
        using j p1 by (simp add: algebra_simps)
    qed
    have "\<forall>w\<in>set us. ?p < w * bs \<or> w * bs + bs \<le> ?p"
    proof (rule ballI, rule ccontr)
      fix w assume w: "w \<in> set us" and "\<not> (?p < w * bs \<or> w * bs + bs \<le> ?p)"
      then have "w * bs \<le> ?p" "?p < w * bs + bs" by simp_all
      moreover have "u * bs \<le> ?p" "?p < u * bs + bs" using j by simp_all
      ultimately have "u = w" by (rule blocks_disjoint [rotated 2])
      with w False vu show False by simp
    qed
    then have "d2 ! nat ?p = d1 ! nat ?p"
      using out2 pb by blast
    also have "\<dots> = ?exp u j"
      using mid1 j by blast
    finally show ?thesis using vu by simp
  qed
  have out: "d2 ! nat p = dst ! nat p"
    if p: "0 \<le> p" "p < int (length dst)" and np: "\<forall>v\<in>set (u # us). p < v * bs \<or> v * bs + bs \<le> p" for p
  proof -
    have "d2 ! nat p = d1 ! nat p"
      using out2 p np len1 by simp
    also have "\<dots> = dst ! nat p"
      using out1 p np by simp
    finally show ?thesis .
  qed
  show ?case
    using run len1 len2 mid out by (intro exI [where x = d2]) simp
qed


lemma units_of_set:
  assumes "chunks_of total' tp" and "total' \<le> 2 ^ 31 - 1"
  shows "set (units_of tp) = {0..total' - 1}"
proof -
  have "set (units_of tp) = set_mset (mset (units_of tp))"
    by simp
  also have "\<dots> = set_mset (mset [0..total' - 1])"
    by (simp only: units_of_mset [OF assms])
  finally show ?thesis
    by simp
qed

lemma get_value_valid:
  assumes "int (length xs) = N" and "\<forall>x\<in>set xs. - dim \<le> x \<and> x < dim"
  shows "\<forall>i. 0 \<le> i \<and> i < N \<longrightarrow> (\<exists>idx. get_value xs i = Some idx \<and> - dim \<le> idx \<and> idx < dim)"
proof (intro allI impI)
  fix i assume i: "0 \<le> i \<and> i < N"
  then have "nat i < length xs"
    using assms(1) by linarith
  then have "xs ! nat i \<in> set xs"
    by simp
  then show "\<exists>idx. get_value xs i = Some idx \<and> - dim \<le> idx \<and> idx < dim"
    using i assms by (simp add: get_value_def)
qed

lemma GatherCopyData_fixed_width:
  fixes M N dim bs :: int
  assumes "0 \<le> ax" and "ax < int (length shp)" and "dim = shp ! nat ax"
    and "0 \<le> M" and "0 \<le> bs"
    and "int (length xs) = N" and "\<forall>x\<in>set xs. - dim \<le> x \<and> x < dim"
    and "int (length src) = M * dim * bs" and "int (length dst) = M * N * bs"
    and "chunks_of (M * N) tp" and "M * N \<le> 2 ^ 31 - 1"
  shows "GatherCopyData (get_value xs) (Raw src) (Raw dst) False eb bs M N (dim * bs) (N * bs)
           shp ax tp
         = Some (OK, Raw (spec_output src xs dim M N bs))"
proof -
  let ?lam = "lambda (get_value xs) (Raw src) False eb bs N (dim * bs) (N * bs) dim"
  note v = get_value_valid [OF assms(6,7)]
  have c: "check_indices (get_value xs) N dim 0 = Some OK"
    using v by (simp add: check_indices_OK_iff)
  have us: "set (units_of tp) = {0..M * N - 1}"
    by (rule units_of_set [OF assms(10,11)])
  then have inr: "\<forall>u\<in>set (units_of tp). 0 \<le> u \<and> u < M * N"
    by simp
  from run_units_copy_blocks [OF assms(4,5) v assms(8,9) inr, of eb]
  obtain dst' where r: "run_units ?lam (units_of tp) (Raw dst) = Some (Raw dst')"
    and len: "length dst' = length dst"
    and mid: "\<forall>u\<in>set (units_of tp). \<forall>j. 0 \<le> j \<and> j < bs \<longrightarrow>
                  dst' ! nat (u * bs + j)
                  = src ! nat ((u div N * dim + spec_resolve dim (the (get_value xs (u mod N)))) * bs + j)"
    by blast
  have "dst' = spec_output src xs dim M N bs"
  proof (rule nth_equalityI)
    show l: "length dst' = length (spec_output src xs dim M N bs)"
      using len assms(9) by (simp add: spec_output_def)
    fix n assume "n < length dst'"
    then have n: "int n < M * N * bs"
      using len assms(9) by simp
    have bs: "0 < bs"
    proof (rule ccontr)
      assume "\<not> 0 < bs"
      then have "bs = 0" using assms(5) by simp
      with n show False by simp
    qed
    let ?u = "int n div bs" and ?j = "int n mod bs"
    have u0: "0 \<le> ?u"
      using bs by (simp add: pos_imp_zdiv_nonneg_iff)
    have "bs * ?u \<le> int n"
      using bs by (metis mult_div_mod_eq pos_mod_sign le_add_same_cancel1)
    then have "bs * ?u < bs * (M * N)"
      using n by (simp add: mult.commute)
    then have u1: "?u < M * N"
      using bs by simp
    have uin: "?u \<in> set (units_of tp)"
      using us u0 u1 by simp
    have j: "0 \<le> ?j" "?j < bs"
      using bs by simp_all
    note ud = unit_decomposition [OF u0 u1 assms(4)]
    have i: "nat (?u mod N) < length xs"
      using ud(4,5) assms(6) by linarith
    have g: "the (get_value xs (?u mod N)) = xs ! nat (?u mod N)"
      using ud(4,5) assms(6) by (simp add: get_value_def)
    have "dst' ! nat (?u * bs + ?j)
          = src ! nat ((?u div N * dim + spec_resolve dim (xs ! nat (?u mod N))) * bs + ?j)"
      using mid uin j unfolding g [symmetric] by blast
    moreover have "?u * bs + ?j = int n"
      by simp
    ultimately have "dst' ! n = spec_output_byte src xs dim N bs (int n)"
      by (simp add: spec_output_byte_def Let_def)
    also have "\<dots> = spec_output src xs dim M N bs ! n"
    proof -
      have "n < nat (M * N * bs)"
        using n by linarith
      then show ?thesis
        by (simp add: spec_output_def)
    qed
    finally show "dst' ! n = spec_output src xs dim M N bs ! n" .
  qed
  with r have "TryParallelFor tp (M * N) (chunk_worker ?lam) (Raw dst)
               = Some (Raw (spec_output src xs dim M N bs))"
    by (simp add: TryParallelFor_units)
  then show ?thesis
    using assms(1,2) c unfolding GatherCopyData_def assms(3) by (simp add: Let_def)
qed


lemma Compute_fixed_width:
  assumes "- NumDimensions (Shape (Input0 ctx)) \<le> axis_attr k"
    and "axis_attr k < NumDimensions (Shape (Input0 ctx))"
    and "\<forall>d\<in>set (Shape (Input0 ctx)). 0 \<le> d"
    and "DataType (Input0 ctx) \<noteq> String" and "Data (Input0 ctx) = Raw src"
    and "int (length src) = Size (Shape (Input0 ctx)) * element_bytes_of ctx"
    and "index_values (Input1 ctx) = Some xs" and "int (length xs) = N_of ctx"
    and "\<forall>x\<in>set xs. - axis_dim_limit_of k ctx \<le> x \<and> x < axis_dim_limit_of k ctx"
    and "OutputBuf ctx = Raw dst"
    and "int (length dst) = M_of k ctx * N_of ctx * block_size_of k ctx"
    and "chunks_of (M_of k ctx * N_of ctx) (OperatorThreadPool ctx)"
    and "M_of k ctx * N_of ctx \<le> 2 ^ 31 - 1"
  shows "Compute k ctx =
           Some (OK, Raw (spec_output src xs (axis_dim_limit_of k ctx) (M_of k ctx) (N_of ctx)
                            (block_size_of k ctx)))"
proof -
  note st = Compute_strides [OF assms(1,2)]
  note nn = Compute_sizes_nonneg [OF assms(3), of k]
  note a = axis_of_range [OF assms(1,2)]
  have len: "int (length src) = M_of k ctx * axis_dim_limit_of k ctx * block_size_of k ctx"
    using assms(6) st(3) by simp
  have "Compute k ctx =
     GatherCopyData (get_value xs) (Raw src) (Raw dst) False (element_bytes_of ctx)
       (block_size_of k ctx) (M_of k ctx) (N_of ctx)
       (axis_dim_limit_of k ctx * block_size_of k ctx) (N_of ctx * block_size_of k ctx)
       (Shape (Input0 ctx)) (axis_of k ctx) (OperatorThreadPool ctx)"
    unfolding Compute_values [OF assms(1,2,7)] using assms(4,5,10) by (simp add: st(1,2))
  also have "\<dots> = Some (OK, Raw (spec_output src xs (axis_dim_limit_of k ctx) (M_of k ctx) (N_of ctx)
                            (block_size_of k ctx)))"
    by (rule GatherCopyData_fixed_width
        [OF a axis_dim_limit_of_def nn assms(8,9) len assms(11,12,13)])
  finally show ?thesis .
qed

lemma Compute_chunking_independent:
  assumes "- NumDimensions (Shape (Input0 ctx)) \<le> axis_attr k"
    and "axis_attr k < NumDimensions (Shape (Input0 ctx))"
    and "\<forall>d\<in>set (Shape (Input0 ctx)). 0 \<le> d"
    and "DataType (Input0 ctx) \<noteq> String" and "Data (Input0 ctx) = Raw src"
    and "int (length src) = Size (Shape (Input0 ctx)) * element_bytes_of ctx"
    and "index_values (Input1 ctx) = Some xs" and "int (length xs) = N_of ctx"
    and "\<forall>x\<in>set xs. - axis_dim_limit_of k ctx \<le> x \<and> x < axis_dim_limit_of k ctx"
    and "OutputBuf ctx = Raw dst"
    and "int (length dst) = M_of k ctx * N_of ctx * block_size_of k ctx"
    and "M_of k ctx * N_of ctx \<le> 2 ^ 31 - 1"
    and "chunks_of (M_of k ctx * N_of ctx) tp"
  shows "Compute k (ctx\<lparr>OperatorThreadPool := tp\<rparr>)
         = Compute k (ctx\<lparr>OperatorThreadPool := [(0, M_of k ctx * N_of ctx)]\<rparr>)"
proof -
  have same: "M_of k (ctx\<lparr>OperatorThreadPool := t\<rparr>) = M_of k ctx"
    "N_of (ctx\<lparr>OperatorThreadPool := t\<rparr>) = N_of ctx"
    "block_size_of k (ctx\<lparr>OperatorThreadPool := t\<rparr>) = block_size_of k ctx"
    "element_bytes_of (ctx\<lparr>OperatorThreadPool := t\<rparr>) = element_bytes_of ctx"
    "axis_dim_limit_of k (ctx\<lparr>OperatorThreadPool := t\<rparr>) = axis_dim_limit_of k ctx" for t
    by (simp_all add: M_of_def N_of_def block_size_of_def element_bytes_of_def
        axis_dim_limit_of_def axis_of_def)
  have nn: "0 \<le> M_of k ctx * N_of ctx"
    using Compute_sizes_nonneg(1) [OF assms(3), of k] assms(8) by simp
  have seq: "chunks_of (M_of k ctx * N_of ctx) [(0, M_of k ctx * N_of ctx)]"
    using nn by (simp add: chunks_of_def)
  have r: "Compute k (ctx\<lparr>OperatorThreadPool := t\<rparr>) =
           Some (OK, Raw (spec_output src xs (axis_dim_limit_of k ctx) (M_of k ctx) (N_of ctx)
                            (block_size_of k ctx)))"
    if "chunks_of (M_of k ctx * N_of ctx) t" for t
    using Compute_fixed_width [of "ctx\<lparr>OperatorThreadPool := t\<rparr>" k src xs dst] assms(1-12) that
    by (simp add: same)
  show ?thesis
    by (simp only: r [OF assms(13)] r [OF seq])
qed


lemma spec_output_identity:
  fixes M dim bs :: int
  assumes "0 \<le> M" and "0 \<le> bs" and "int (length src) = M * dim * bs"
  shows "spec_output src [0..dim - 1] dim M dim bs = src"
proof (rule nth_equalityI)
  show "length (spec_output src [0..dim - 1] dim M dim bs) = length src"
    using assms(3) by (simp add: spec_output_def)
  fix n assume "n < length (spec_output src [0..dim - 1] dim M dim bs)"
  then have n: "n < nat (M * dim * bs)"
    by (simp add: spec_output_def)
  then have pos: "0 < M * dim * bs"
    by linarith
  have bs: "0 < bs" and dim: "0 < dim"
  proof -
    have "0 < M * dim \<and> 0 < bs \<or> M * dim < 0 \<and> bs < 0"
      using pos by (simp add: zero_less_mult_iff)
    moreover have "\<not> (M * dim < 0 \<and> bs < 0)"
      using assms(2) by simp
    ultimately have 1: "0 < M * dim" "0 < bs"
      by simp_all
    show "0 < bs" by (rule 1(2))
    show "0 < dim"
      using 1(1) assms(1) by (simp add: zero_less_mult_iff)
  qed
  let ?u = "int n div bs"
  have u0: "0 \<le> ?u"
    using bs by (simp add: pos_imp_zdiv_nonneg_iff)
  have i: "0 \<le> ?u mod dim" "?u mod dim < dim"
    using dim by simp_all
  have x: "[0..dim - 1] ! nat (?u mod dim) = ?u mod dim"
    using i by (simp add: nth_upto)
  have r: "spec_resolve dim (?u mod dim) = ?u mod dim"
    using i by (simp add: spec_resolve_def)
  have "(?u div dim * dim + ?u mod dim) * bs + int n mod bs = int n"
    by simp
  then have "spec_output_byte src [0..dim - 1] dim dim bs (int n) = src ! n"
    by (simp add: spec_output_byte_def Let_def x r)
  then show "spec_output src [0..dim - 1] dim M dim bs ! n = src ! n"
    using n by (simp add: spec_output_def)
qed

lemma Compute_identity_fixed_width:
  assumes "- NumDimensions (Shape (Input0 ctx)) \<le> axis_attr k"
    and "axis_attr k < NumDimensions (Shape (Input0 ctx))"
    and "\<forall>d\<in>set (Shape (Input0 ctx)). 0 \<le> d"
    and "DataType (Input0 ctx) \<noteq> String" and "Data (Input0 ctx) = Raw src"
    and "int (length src) = Size (Shape (Input0 ctx)) * element_bytes_of ctx"
    and "Shape (Input1 ctx) = [axis_dim_limit_of k ctx]"
    and "index_values (Input1 ctx) = Some [0..axis_dim_limit_of k ctx - 1]"
    and "OutputBuf ctx = Raw dst"
    and "int (length dst) = int (length src)"
    and "chunks_of (M_of k ctx * N_of ctx) (OperatorThreadPool ctx)"
    and "M_of k ctx * N_of ctx \<le> 2 ^ 31 - 1"
  shows "Compute k ctx = Some (OK, Raw src)"
proof -
  let ?dim = "axis_dim_limit_of k ctx"
  have a: "nat (axis_of k ctx) < length (Shape (Input0 ctx))"
    using axis_of_range [OF assms(1,2)] by linarith
  then have "Shape (Input0 ctx) ! nat (axis_of k ctx) \<in> set (Shape (Input0 ctx))"
    by simp
  then have dim0: "0 \<le> ?dim"
    using assms(3) by (simp add: axis_dim_limit_of_def)
  have N: "N_of ctx = ?dim"
    by (simp add: N_of_def assms(7) Size_def)
  have lx: "int (length [0..?dim - 1]) = N_of ctx"
    using dim0 by (simp add: N)
  have vx: "\<forall>x\<in>set [0..?dim - 1]. - ?dim \<le> x \<and> x < ?dim"
    by auto
  note st = Compute_strides [OF assms(1,2)]
  have ls: "int (length src) = M_of k ctx * ?dim * block_size_of k ctx"
    using assms(6) st(3) by simp
  then have ld: "int (length dst) = M_of k ctx * N_of ctx * block_size_of k ctx"
    using assms(10) by (simp add: N)
  have "Compute k ctx =
           Some (OK, Raw (spec_output src [0..?dim - 1] ?dim (M_of k ctx) (N_of ctx)
                            (block_size_of k ctx)))"
    by (rule Compute_fixed_width [OF assms(1-6,8) lx vx assms(9) ld assms(11,12)])
  also have "spec_output src [0..?dim - 1] ?dim (M_of k ctx) (N_of ctx) (block_size_of k ctx) = src"
    unfolding N by (rule spec_output_identity [OF Compute_sizes_nonneg [OF assms(3)] ls])
  finally show ?thesis .
qed


lemma Compute_fixed_width_scenario4:
  "Compute \<lparr>axis_attr = 1\<rparr> scenario4 = Some (OK, Raw [1, 2, 2, 3, 4, 5, 5, 6])"
proof -
  let ?k = "\<lparr>axis_attr = 1\<rparr>"
  have ax: "axis_of ?k scenario4 = 1"
    by (simp add: axis_of_def scenario4_def)
  have v: "M_of ?k scenario4 = 2" "N_of scenario4 = 4" "block_size_of ?k scenario4 = 1"
    "axis_dim_limit_of ?k scenario4 = 3" "element_bytes_of scenario4 = 1"
    by (simp_all add: M_of_def N_of_def block_size_of_def axis_dim_limit_of_def
        element_bytes_of_def ax SizeToDimension_def SizeFromDimension_def Size_def,
        simp_all add: scenario4_def)
  have "Compute ?k scenario4 =
          Some (OK, Raw (spec_output ([1, 2, 3, 4, 5, 6] :: byte list) [0, 1, 1, 2] (axis_dim_limit_of ?k scenario4)
                           (M_of ?k scenario4) (N_of scenario4) (block_size_of ?k scenario4)))"
  proof (rule Compute_fixed_width [where dst = "replicate 8 0"])
    show "index_values (Input1 scenario4) = Some [0, 1, 1, 2]"
      by (simp add: scenario4_def index_values_def IsDataType_def DataAsSpan_int64_def)
    show "chunks_of (M_of ?k scenario4 * N_of scenario4) (OperatorThreadPool scenario4)"
      unfolding v by (simp add: scenario4_def chunks_of_def)
  qed (simp_all add: v, simp_all add: scenario4_def NumDimensions_def Size_def)
  also have "spec_output ([1, 2, 3, 4, 5, 6] :: byte list) [0, 1, 1, 2] (axis_dim_limit_of ?k scenario4)
                (M_of ?k scenario4) (N_of scenario4) (block_size_of ?k scenario4)
             = [1, 2, 2, 3, 4, 5, 5, 6]"
    unfolding v by code_simp
  finally show ?thesis .
qed

subsection \<open>A gather unit that the chunk worker does not reach\<close>

lemma two_gib_names:
  "M_of \<lparr>axis_attr = 1\<rparr> two_gib = 2147483648"
  "N_of two_gib = 1"
  "element_bytes_of two_gib = 1"
  "block_size_of \<lparr>axis_attr = 1\<rparr> two_gib = 1"
  "data_batch_bytes_of \<lparr>axis_attr = 1\<rparr> two_gib = 1"
  "gathered_batch_bytes_of \<lparr>axis_attr = 1\<rparr> two_gib = 1"
  "axis_dim_limit_of \<lparr>axis_attr = 1\<rparr> two_gib = 1"
proof -
  have ax: "axis_of \<lparr>axis_attr = 1\<rparr> two_gib = 1"
    by (simp add: axis_of_def)
  show "M_of \<lparr>axis_attr = 1\<rparr> two_gib = 2147483648"
    "N_of two_gib = 1"
    "element_bytes_of two_gib = 1"
    "block_size_of \<lparr>axis_attr = 1\<rparr> two_gib = 1"
    "data_batch_bytes_of \<lparr>axis_attr = 1\<rparr> two_gib = 1"
    "gathered_batch_bytes_of \<lparr>axis_attr = 1\<rparr> two_gib = 1"
    "axis_dim_limit_of \<lparr>axis_attr = 1\<rparr> two_gib = 1"
    by (simp_all add: M_of_def N_of_def block_size_of_def data_batch_bytes_of_def
        gathered_batch_bytes_of_def axis_dim_limit_of_def element_bytes_of_def ax
        SizeToDimension_def SizeFromDimension_def Size_def,
        simp_all add: two_gib_def)
qed

lemma two_gib_unit_0:
  "lambda (get_index64 [0]) (Raw (replicate 2147483648 1)) False 1 1 1 1 1 1 0
     (Raw (replicate 2147483648 0)) = Some (Raw (1 # replicate 2147483647 0))"
proof -
  have r: "replicate 2147483648 (0::byte) = 0 # replicate 2147483647 0"
    by (simp add: replicate_Suc [symmetric] del: replicate_Suc)
  show ?thesis
    by (simp add: lambda_def get_index64_def memcpy_def r)
qed

text \<open>
  Claim C3 at \<open>M * N = 2^31\<close> gather units: a \<^verbatim>\<open>uint8\<close> tensor of shape \<open>[2^31, 1]\<close> whose
  bytes are all 1, axis 1, indices \<open>[0]\<close>, output memory of \<open>2^31\<close> zero bytes, run as the
  single chunk \<open>[0, 2^31)\<close>. Unit 0 is a valid gather unit; with \<open>batch = 0\<close> and \<open>i = 0\<close>
  its copy takes the byte at the source offset 0 to the destination offset 0, and that is
  what the closure does when it is called on unit 0, and what the engine does when unit 0
  comes in a chunk \<open>[0, 1)\<close> of its own. In the single chunk the worker computes
  \<^verbatim>\<open>end = static_cast<int>(2^31) = -2^31\<close>, its loop calls the closure on no unit at all,
  and Compute returns OK with the output memory as it was: the byte at the destination
  offset 0 is 0, the byte at the source offset 0 is 1. For at most \<open>2^31 - 1\<close> gather
  units the engine does copy the block of every unit (\<open>Compute_fixed_width\<close>).
\<close>

theorem C3_unit_not_copied_evaluated:
  "M_of \<lparr>axis_attr = 1\<rparr> two_gib * N_of two_gib = 2147483648
   \<and> DataType (Input0 two_gib) = UInt8
   \<and> Data (Input0 two_gib) = Raw (replicate 2147483648 1)
   \<and> OutputBuf two_gib = Raw (replicate 2147483648 0)
   \<and> chunks_of (M_of \<lparr>axis_attr = 1\<rparr> two_gib * N_of two_gib) (OperatorThreadPool two_gib)
   \<and> lambda (get_index64 [0]) (Data (Input0 two_gib)) (DataType (Input0 two_gib) = String)
        (element_bytes_of two_gib) (block_size_of \<lparr>axis_attr = 1\<rparr> two_gib) (N_of two_gib)
        (data_batch_bytes_of \<lparr>axis_attr = 1\<rparr> two_gib)
        (gathered_batch_bytes_of \<lparr>axis_attr = 1\<rparr> two_gib)
        (axis_dim_limit_of \<lparr>axis_attr = 1\<rparr> two_gib) 0 (OutputBuf two_gib)
       = Some (Raw (1 # replicate 2147483647 0))
   \<and> Compute \<lparr>axis_attr = 1\<rparr> (two_gib\<lparr>OperatorThreadPool := [(0, 1), (1, 2147483648)]\<rparr>)
       = Some (OK, Raw (1 # replicate 2147483647 0))
   \<and> units_run (OperatorThreadPool two_gib) (M_of \<lparr>axis_attr = 1\<rparr> two_gib * N_of two_gib)
       = Some []
   \<and> Compute \<lparr>axis_attr = 1\<rparr> two_gib = Some (OK, Raw (replicate 2147483648 0))
   \<and> replicate 2147483648 (0::byte) ! 0 \<noteq> replicate 2147483648 (1::byte) ! 0"
proof -
  have d: "DataType (Input0 two_gib) = UInt8"
    "Data (Input0 two_gib) = Raw (replicate 2147483648 1)"
    "OutputBuf two_gib = Raw (replicate 2147483648 0)"
    "OperatorThreadPool two_gib = [(0, 2147483648)]"
    by (simp_all add: two_gib_def)
  show ?thesis
    unfolding two_gib_names d units_run_eq sequential_run_past_int_max
    using two_gib_seq two_gib_chunked two_gib_unit_0 by (simp add: chunks_of_def)
qed

subsection \<open>Negative indices in a whole run\<close>

lemma lambda_resolved:
  "lambda get_index src_base is_string_type element_bytes block_size N data_batch_bytes
     gathered_batch_bytes axis_dim_limit index dst_base
   = lambda (\<lambda>i. map_option (\<lambda>idx. if idx < 0 then idx + axis_dim_limit else idx) (get_index i))
       src_base is_string_type element_bytes block_size N data_batch_bytes
       gathered_batch_bytes 0 index dst_base"
proof (cases "N = 0")
  case True
  then show ?thesis
    by (simp add: lambda_def)
next
  case False
  show ?thesis
  proof (cases "get_index (index smod N)")
    case None
    then show ?thesis
      using False by (simp add: lambda_def Let_def)
  next
    case (Some idx)
    have r: "(if (if idx < 0 then idx + axis_dim_limit else idx) < 0
              then (if idx < 0 then idx + axis_dim_limit else idx) + 0
              else (if idx < 0 then idx + axis_dim_limit else idx))
             = (if idx < 0 then idx + axis_dim_limit else idx)"
      by simp
    show ?thesis
      using False Some by (simp only: lambda_def Let_def if_False option.case option.map r)
  qed
qed

lemma spec_output_length: "length (spec_output src xs dim M N bs) = nat (M * N * bs)"
  by (simp add: spec_output_def)

lemma spec_output_nth:
  fixes M N dim bs u j :: int
  assumes "0 \<le> u" and "u < M * N" and "0 \<le> j" and "j < bs"
  shows "spec_output src xs dim M N bs ! nat (u * bs + j)
         = src ! nat ((u div N * dim
                        + (if xs ! nat (u mod N) < 0 then xs ! nat (u mod N) + dim
                           else xs ! nat (u mod N))) * bs + j)"
proof -
  have bs: "0 < bs"
    using assms(3,4) by simp
  have "(u + 1) * bs \<le> M * N * bs"
    using assms(2) bs by (intro mult_right_mono) simp_all
  then have "u * bs + j < M * N * bs"
    using assms(4) by (simp add: algebra_simps)
  moreover have p0: "0 \<le> u * bs + j"
    using assms(1,3) bs by simp
  ultimately have n: "nat (u * bs + j) < nat (M * N * bs)"
    by linarith
  have d: "(u * bs + j) div bs = u" and m: "(u * bs + j) mod bs = j"
    using assms(3,4) bs by simp_all
  have ip: "int (nat (u * bs + j)) = u * bs + j"
    using p0 by simp
  have "spec_output src xs dim M N bs ! nat (u * bs + j)
        = spec_output_byte src xs dim N bs (int (nat (u * bs + j)))"
    using n by (simp add: spec_output_def)
  also have "\<dots> = src ! nat ((u div N * dim + spec_resolve dim (xs ! nat (u mod N))) * bs + j)"
    by (simp only: ip spec_output_byte_def Let_def d m)
  finally show ?thesis
    by (simp only: spec_resolve_def)
qed


text \<open>
  Claim C5. A negative index that has passed the validation is resolved as \<open>idx + dim\<close>,
  at each access of the closure (line 81:
  \<^verbatim>\<open>idx = idx < 0 ? idx + static_cast<int64_t>(axis_dim_limit) : idx\<close>), so gathering
  the index \<open>-n\<close> yields the same output as gathering the index \<open>dim - n\<close>. In three
  parts, for a valid axis attribute and index tensors \<open>xs\<close> and \<open>xs'\<close> of a supported type
  and of the same shape, where \<open>xs'\<close> is \<open>xs\<close> with \<open>-n\<close> replaced by \<open>dim - n\<close> at any
  positions (\<open>1 \<le> n \<le> dim\<close>, which are the negative indices that the validation accepts):

  \<^item> Compute returns the same status and the same output for \<open>xs'\<close> as for \<open>xs\<close>, whatever
    the element kind, the sizes and the chunks are;

  \<^item> the closure resolves an index as the spec says: called with the indices \<open>get_index\<close>
    and the limit \<open>axis_dim_limit\<close>, it does what it does when called with the indices
    \<open>idx < 0 ? idx + axis_dim_limit : idx\<close> and the limit 0, with which it resolves nothing;

  \<^item> for a fixed-width data tensor whose buffer holds the elements of its shape, validated
    indices, output memory of the size of the output shape and chunks that partition the at
    most \<open>2^31 - 1\<close> gather units, both runs return OK with the same output, and byte \<open>j\<close>
    of the block of unit \<open>u\<close> of that output is the byte \<open>j\<close> of the source block
    \<open>(u / N) * dim + resolve (xs[u % N])\<close>, where \<open>resolve idx\<close> is \<open>idx + dim\<close> for a negative
    \<open>idx\<close> and \<open>idx\<close> otherwise.
\<close>

theorem C5_negative_index:
  fixes src dst :: "byte list"
  assumes "- NumDimensions (Shape (Input0 ctx)) \<le> axis_attr k"
    and "axis_attr k < NumDimensions (Shape (Input0 ctx))"
    and "index_values (Input1 ctx) = Some xs"
    and "index_values I' = Some xs'"
    and "Shape I' = Shape (Input1 ctx)"
    and "length xs' = length xs"
    and "\<forall>i<length xs. xs' ! i = xs ! i
           \<or> (\<exists>n. 1 \<le> n \<and> n \<le> axis_dim_limit_of k ctx
                 \<and> xs ! i = - n \<and> xs' ! i = axis_dim_limit_of k ctx - n)"
  shows "Compute k (ctx\<lparr>Input1 := I'\<rparr>) = Compute k ctx
       \<and> lambda get_index src_base is_string_type element_bytes block_size N data_batch_bytes
            gathered_batch_bytes axis_dim_limit index dst_base
          = lambda (\<lambda>i. map_option (\<lambda>idx. if idx < 0 then idx + axis_dim_limit else idx)
                           (get_index i))
              src_base is_string_type element_bytes block_size N data_batch_bytes
              gathered_batch_bytes 0 index dst_base
       \<and> ((\<forall>d\<in>set (Shape (Input0 ctx)). 0 \<le> d)
            \<and> DataType (Input0 ctx) \<noteq> String \<and> Data (Input0 ctx) = Raw src
            \<and> int (length src) = Size (Shape (Input0 ctx)) * element_bytes_of ctx
            \<and> int (length xs) = N_of ctx
            \<and> (\<forall>x\<in>set xs. - axis_dim_limit_of k ctx \<le> x \<and> x < axis_dim_limit_of k ctx)
            \<and> OutputBuf ctx = Raw dst
            \<and> int (length dst) = M_of k ctx * N_of ctx * block_size_of k ctx
            \<and> chunks_of (M_of k ctx * N_of ctx) (OperatorThreadPool ctx)
            \<and> M_of k ctx * N_of ctx \<le> 2 ^ 31 - 1
          \<longrightarrow> (\<exists>out. Compute k ctx = Some (OK, Raw out)
                  \<and> Compute k (ctx\<lparr>Input1 := I'\<rparr>) = Some (OK, Raw out)
                  \<and> length out = length dst
                  \<and> (\<forall>u j. 0 \<le> u \<and> u < M_of k ctx * N_of ctx
                           \<and> 0 \<le> j \<and> j < block_size_of k ctx \<longrightarrow>
                        out ! nat (u * block_size_of k ctx + j)
                        = src ! nat ((u div N_of ctx * axis_dim_limit_of k ctx
                                      + (if xs ! nat (u mod N_of ctx) < 0
                                         then xs ! nat (u mod N_of ctx) + axis_dim_limit_of k ctx
                                         else xs ! nat (u mod N_of ctx)))
                                     * block_size_of k ctx + j))))"
proof (intro conjI impI)
  show eq: "Compute k (ctx\<lparr>Input1 := I'\<rparr>) = Compute k ctx"
    by (rule Compute_negative_index_equal [OF assms])
  show "lambda get_index src_base is_string_type element_bytes block_size N data_batch_bytes
            gathered_batch_bytes axis_dim_limit index dst_base
          = lambda (\<lambda>i. map_option (\<lambda>idx. if idx < 0 then idx + axis_dim_limit else idx)
                           (get_index i))
              src_base is_string_type element_bytes block_size N data_batch_bytes
              gathered_batch_bytes 0 index dst_base"
    by (rule lambda_resolved)
  let ?M = "M_of k ctx" and ?N = "N_of ctx" and ?bs = "block_size_of k ctx"
  let ?dim = "axis_dim_limit_of k ctx"
  assume wf: "(\<forall>d\<in>set (Shape (Input0 ctx)). 0 \<le> d)
            \<and> DataType (Input0 ctx) \<noteq> String \<and> Data (Input0 ctx) = Raw src
            \<and> int (length src) = Size (Shape (Input0 ctx)) * element_bytes_of ctx
            \<and> int (length xs) = N_of ctx
            \<and> (\<forall>x\<in>set xs. - axis_dim_limit_of k ctx \<le> x \<and> x < axis_dim_limit_of k ctx)
            \<and> OutputBuf ctx = Raw dst
            \<and> int (length dst) = M_of k ctx * N_of ctx * block_size_of k ctx
            \<and> chunks_of (M_of k ctx * N_of ctx) (OperatorThreadPool ctx)
            \<and> M_of k ctx * N_of ctx \<le> 2 ^ 31 - 1"
  then have w: "\<forall>d\<in>set (Shape (Input0 ctx)). 0 \<le> d"
    "DataType (Input0 ctx) \<noteq> String" "Data (Input0 ctx) = Raw src"
    "int (length src) = Size (Shape (Input0 ctx)) * element_bytes_of ctx"
    "int (length xs) = ?N"
    "\<forall>x\<in>set xs. - ?dim \<le> x \<and> x < ?dim"
    "OutputBuf ctx = Raw dst"
    "int (length dst) = ?M * ?N * ?bs"
    "chunks_of (?M * ?N) (OperatorThreadPool ctx)"
    "?M * ?N \<le> 2 ^ 31 - 1"
    by blast+
  let ?out = "spec_output src xs ?dim ?M ?N ?bs"
  have c: "Compute k ctx = Some (OK, Raw ?out)"
    by (rule Compute_fixed_width [OF assms(1,2) w(1,2,3,4) assms(3) w(5,6,7,8,9,10)])
  have len: "length ?out = length dst"
    using w(8) by (simp add: spec_output_length)
  have nth: "\<forall>u j. 0 \<le> u \<and> u < ?M * ?N \<and> 0 \<le> j \<and> j < ?bs \<longrightarrow>
               ?out ! nat (u * ?bs + j)
               = src ! nat ((u div ?N * ?dim
                              + (if xs ! nat (u mod ?N) < 0 then xs ! nat (u mod ?N) + ?dim
                                 else xs ! nat (u mod ?N))) * ?bs + j)"
    by (intro allI impI spec_output_nth) simp_all
  show "\<exists>out. Compute k ctx = Some (OK, Raw out)
                  \<and> Compute k (ctx\<lparr>Input1 := I'\<rparr>) = Some (OK, Raw out)
                  \<and> length out = length dst
                  \<and> (\<forall>u j. 0 \<le> u \<and> u < ?M * ?N \<and> 0 \<le> j \<and> j < ?bs \<longrightarrow>
                        out ! nat (u * ?bs + j)
                        = src ! nat ((u div ?N * ?dim
                                      + (if xs ! nat (u mod ?N) < 0
                                         then xs ! nat (u mod ?N) + ?dim
                                         else xs ! nat (u mod ?N)))
                                     * ?bs + j))"
    using c eq len nth by (intro exI [where x = ?out]) simp
qed

theorem C5_negative_index_witness:
  "index_values (Input1 scenario2) = Some [- 1]
   \<and> index_values \<lparr>Shape = [1], DataType = Int64, Data = I64 [2]\<rparr> = Some [2]
   \<and> axis_dim_limit_of \<lparr>axis_attr = 0\<rparr> scenario2 = 3
   \<and> Data (Input0 scenario2) = Raw [10, 20, 30]
   \<and> chunks_of (M_of \<lparr>axis_attr = 0\<rparr> scenario2 * N_of scenario2) (OperatorThreadPool scenario2)
   \<and> Compute \<lparr>axis_attr = 0\<rparr> scenario2 = Some (OK, Raw [30])
   \<and> Compute \<lparr>axis_attr = 0\<rparr> (scenario2\<lparr>Input1 := \<lparr>Shape = [1], DataType = Int64, Data = I64 [2]\<rparr>\<rparr>)
       = Some (OK, Raw [30])"
proof -
  let ?I = "\<lparr>Shape = [1], DataType = Int64, Data = I64 [2]\<rparr>"
  let ?k = "\<lparr>axis_attr = 0\<rparr>"
  let ?src = "[10, 20, 30] :: byte list" and ?dst = "[0] :: byte list"
  have ax: "axis_of ?k scenario2 = 0"
    by (simp add: axis_of_def scenario2_def)
  have v: "M_of ?k scenario2 = 1" "N_of scenario2 = 1" "block_size_of ?k scenario2 = 1"
    "axis_dim_limit_of ?k scenario2 = 3" "element_bytes_of scenario2 = 1"
    by (simp_all add: M_of_def N_of_def block_size_of_def axis_dim_limit_of_def
        element_bytes_of_def ax SizeToDimension_def SizeFromDimension_def Size_def,
        simp_all add: scenario2_def)
  have h1: "- NumDimensions (Shape (Input0 scenario2)) \<le> axis_attr ?k"
    and h2: "axis_attr ?k < NumDimensions (Shape (Input0 scenario2))"
    by (simp_all add: scenario2_def NumDimensions_def)
  have h3: "index_values (Input1 scenario2) = Some [- 1]"
    by (simp add: scenario2_def index_values_def IsDataType_def DataAsSpan_int64_def)
  have h4: "index_values ?I = Some [2]"
    by (simp add: index_values_def IsDataType_def DataAsSpan_int64_def)
  have h5: "Shape ?I = Shape (Input1 scenario2)"
    by (simp add: scenario2_def)
  have h6: "length [2::int] = length [- 1::int]"
    by simp
  have h7: "\<forall>i<length [- 1::int]. [2] ! i = [- 1::int] ! i
           \<or> (\<exists>n. 1 \<le> n \<and> n \<le> axis_dim_limit_of ?k scenario2
                 \<and> [- 1] ! i = - n \<and> [2] ! i = axis_dim_limit_of ?k scenario2 - n)"
    unfolding v by (simp add: exI [where x = 1])
  have d: "Data (Input0 scenario2) = Raw ?src"
    by (simp add: scenario2_def)
  have ch: "chunks_of (M_of ?k scenario2 * N_of scenario2) (OperatorThreadPool scenario2)"
    unfolding v by (simp add: scenario2_def chunks_of_def)
  have wf: "(\<forall>d\<in>set (Shape (Input0 scenario2)). 0 \<le> d)
            \<and> DataType (Input0 scenario2) \<noteq> String \<and> Data (Input0 scenario2) = Raw ?src
            \<and> int (length ?src) = Size (Shape (Input0 scenario2)) * element_bytes_of scenario2
            \<and> int (length [- 1::int]) = N_of scenario2
            \<and> (\<forall>x\<in>set [- 1::int]. - axis_dim_limit_of ?k scenario2 \<le> x
                    \<and> x < axis_dim_limit_of ?k scenario2)
            \<and> OutputBuf scenario2 = Raw ?dst
            \<and> int (length ?dst) = M_of ?k scenario2 * N_of scenario2 * block_size_of ?k scenario2
            \<and> chunks_of (M_of ?k scenario2 * N_of scenario2) (OperatorThreadPool scenario2)
            \<and> M_of ?k scenario2 * N_of scenario2 \<le> 2 ^ 31 - 1"
    using ch unfolding v by (simp add: scenario2_def Size_def)
  note t = C5_negative_index [OF h1 h2 h3 h4 h5 h6 h7, where src = ?src and dst = ?dst]
  note t3 = t [THEN conjunct2, THEN conjunct2, THEN mp, OF wf]
  from t3 obtain out where o: "Compute ?k scenario2 = Some (OK, Raw out)
      \<and> Compute ?k (scenario2\<lparr>Input1 := ?I\<rparr>) = Some (OK, Raw out)
      \<and> length out = length ?dst
      \<and> (\<forall>u j. 0 \<le> u \<and> u < M_of ?k scenario2 * N_of scenario2
                 \<and> 0 \<le> j \<and> j < block_size_of ?k scenario2 \<longrightarrow>
               out ! nat (u * block_size_of ?k scenario2 + j)
               = ?src ! nat ((u div N_of scenario2 * axis_dim_limit_of ?k scenario2
                              + (if [- 1::int] ! nat (u mod N_of scenario2) < 0
                                 then [- 1] ! nat (u mod N_of scenario2)
                                      + axis_dim_limit_of ?k scenario2
                                 else [- 1] ! nat (u mod N_of scenario2)))
                             * block_size_of ?k scenario2 + j))"
    by (elim exE) (rule that, assumption)
  note c = o [THEN conjunct1]
  note c' = o [THEN conjunct2, THEN conjunct1]
  note len = o [THEN conjunct2, THEN conjunct2, THEN conjunct1]
  note nth = o [THEN conjunct2, THEN conjunct2, THEN conjunct2]
  have "out ! 0 = 30"
    using nth [rule_format, of 0 0] unfolding v by simp
  moreover have "length out = 1"
    using len by simp
  ultimately have "out = [30]"
    by (cases out) simp_all
  then show ?thesis
    using c c' h3 h4 v(4) d ch by simp
qed

subsection \<open>A whole run on a string tensor\<close>

text \<open>
  The string branch of the closure performs one assignment per gather unit, to the
  element slot \<open>u * block\<close> (\<open>lambda_string_unit\<close>). A run over a string tensor with a
  block of at least one element therefore writes the first element of every block and
  nothing else (\<open>Compute_string\<close>, \<open>first_slots_output_unwritten\<close>). With \<open>block = 1\<close>
  that is the output of the spec (\<open>first_slots_output_block_1\<close>). The bounds by \<open>2^64\<close>
  say that the byte sizes of the two tensors fit \<^verbatim>\<open>size_t\<close>.
\<close>

lemma to_size_t_id: "0 \<le> x \<Longrightarrow> x < 2 ^ 64 \<Longrightarrow> to_size_t x = x"
  by (simp add: to_size_t_def)

lemma lambda_string_unit:
  fixes M N dim block eb u :: int
  assumes "0 \<le> M" and "0 < block" and "0 < eb" and "0 \<le> u" and "u < M * N"
    and "get_index (u mod N) = Some idx" and "- dim \<le> idx" and "idx < dim"
    and "int (length src) = M * dim * block" and "int (length dst) = M * N * block"
    and "M * dim * block * eb < 2 ^ 64" and "M * N * block * eb < 2 ^ 64"
  shows "lambda get_index (Strs src) True eb (block * eb) N (dim * block * eb) (N * block * eb)
           dim u (Strs dst)
         = Some (Strs (dst[nat (u * block) :=
                            src ! nat ((u div N * dim + spec_resolve dim idx) * block)]))"
proof -
  note ud = unit_decomposition [OF assms(4,5,1)]
  have r: "0 \<le> spec_resolve dim idx" "spec_resolve dim idx < dim"
    using assms(7,8) by (simp_all add: spec_resolve_def)
  have b0: "0 \<le> block" and be: "0 \<le> block * eb"
    using assms(2,3) by simp_all
  note slots = unit_offsets_in_bounds [OF b0 ud(2,3,4,5) r]
  note bytes = unit_offsets_in_bounds [OF be ud(2,3,4,5) r]
  let ?ss = "(u div N * dim + spec_resolve dim idx) * block"
  let ?ds = "u * block"
  let ?so = "u div N * (dim * block * eb) + spec_resolve dim idx * (block * eb)"
  let ?do = "u div N * (N * block * eb) + u mod N * (block * eb)"
  have e: "u div N * N + u mod N = u"
    by simp
  have ds: "?ds = u div N * (N * block) + u mod N * block"
  proof -
    have "u * block = (u div N * N + u mod N) * block"
      by (simp only: e)
    also have "\<dots> = u div N * (N * block) + u mod N * block"
      by (simp only: distrib_right mult.assoc)
    finally show ?thesis .
  qed
  have ss: "?ss = u div N * (dim * block) + spec_resolve dim idx * block"
    by (simp only: distrib_right mult.assoc)
  have so: "?so = ?ss * eb" and "do": "?do = ?ds * eb"
    unfolding ds ss by (simp_all only: distrib_right mult.assoc)
  have so_b: "0 \<le> ?so" "?so < 2 ^ 64"
  proof -
    have "?so + block * eb \<le> M * dim * (block * eb)"
      using bytes(2) by (simp only: mult.assoc)
    moreover have "M * dim * (block * eb) = M * dim * block * eb"
      by (simp only: mult.assoc)
    ultimately show "?so < 2 ^ 64"
      using be assms(11) by linarith
    show "0 \<le> ?so"
      using bytes(1) by (simp only: mult.assoc)
  qed
  have do_b: "0 \<le> ?do" "?do < 2 ^ 64"
  proof -
    have "?do + block * eb \<le> M * N * (block * eb)"
      using bytes(4) by (simp only: mult.assoc)
    moreover have "M * N * (block * eb) = M * N * block * eb"
      by (simp only: mult.assoc)
    ultimately show "?do < 2 ^ 64"
      using be assms(12) by linarith
    show "0 \<le> ?do"
      using bytes(3) by (simp only: mult.assoc)
  qed
  have sdiv: "to_size_t ?so div eb = ?ss"
    unfolding to_size_t_id [OF so_b] unfolding so using assms(3) by simp
  have ddiv: "to_size_t ?do div eb = ?ds"
    unfolding to_size_t_id [OF do_b] unfolding "do" using assms(3) by simp
  have s_in: "?ss < int (length src)" and d_in: "?ds < int (length dst)"
    using slots(2,4) assms(2) unfolding ss ds assms(9,10) by simp_all
  have g: "get_index (u smod N) = Some idx" and q: "u sdiv N = u div N" "u smod N = u mod N"
    using assms(6) sdiv_smod_nonneg [OF assms(4) ud(1)] by simp_all
  have ne: "N \<noteq> 0" "eb \<noteq> 0"
    using ud(1) assms(3) by simp_all
  have "lambda get_index (Strs src) True eb (block * eb) N (dim * block * eb) (N * block * eb)
           dim u (Strs dst)
        = (let d = to_size_t ?do div eb; s = to_size_t ?so div eb
           in if d < int (length dst) \<and> s < int (length src)
              then Some (Strs (dst[nat d := src ! nat s])) else None)"
    using ne g by (simp add: lambda_def Let_def q spec_resolve_def)
  also have "\<dots> = Some (Strs (dst[nat ?ds := src ! nat ?ss]))"
    unfolding sdiv ddiv Let_def using s_in d_in by simp
  finally show ?thesis .
qed


lemma run_units_string:
  fixes M N dim block eb :: int
  assumes "0 \<le> M" and "0 < block" and "0 < eb"
    and "\<forall>i. 0 \<le> i \<and> i < N \<longrightarrow> (\<exists>idx. get_index i = Some idx \<and> - dim \<le> idx \<and> idx < dim)"
    and "int (length src) = M * dim * block"
    and "M * dim * block * eb < 2 ^ 64" and "M * N * block * eb < 2 ^ 64"
    and "int (length dst) = M * N * block"
    and "\<forall>u\<in>set us. 0 \<le> u \<and> u < M * N"
  shows "\<exists>dst'. run_units (lambda get_index (Strs src) True eb (block * eb) N (dim * block * eb)
                              (N * block * eb) dim) us (Strs dst)
                  = Some (Strs dst')
           \<and> length dst' = length dst
           \<and> (\<forall>u\<in>set us. dst' ! nat (u * block)
                  = src ! nat ((u div N * dim + spec_resolve dim (the (get_index (u mod N)))) * block))
           \<and> (\<forall>p<length dst. (\<forall>u\<in>set us. p \<noteq> nat (u * block)) \<longrightarrow> dst' ! p = dst ! p)"
  using assms(8,9)
proof (induction us arbitrary: dst)
  case Nil
  then show ?case by simp
next
  case (Cons u us)
  let ?lam = "lambda get_index (Strs src) True eb (block * eb) N (dim * block * eb)
                (N * block * eb) dim"
  let ?exp = "\<lambda>u. src ! nat ((u div N * dim + spec_resolve dim (the (get_index (u mod N)))) * block)"
  have u: "0 \<le> u" "u < M * N"
    using Cons.prems(2) by simp_all
  note ud = unit_decomposition [OF u assms(1)]
  from assms(4) ud(4,5) obtain idx where idx: "get_index (u mod N) = Some idx" "- dim \<le> idx" "idx < dim"
    by blast
  define d1 where "d1 = dst[nat (u * block) := ?exp u]"
  have l: "?lam u (Strs dst) = Some (Strs d1)"
    using lambda_string_unit [where get_index = get_index and M = M and N = N and u = u
        and eb = eb, OF assms(1,2,3) u idx assms(5) Cons.prems(1) assms(6,7)] idx(1)
    by (simp add: d1_def)
  have len1: "length d1 = length dst"
    by (simp add: d1_def)
  have slot: "nat (u * block) < length dst"
  proof -
    have "u * block < M * N * block"
      using u(2) assms(2) by (rule mult_strict_right_mono)
    moreover have "0 \<le> u * block"
      using u(1) assms(2) by simp
    ultimately show ?thesis
      using Cons.prems(1) by linarith
  qed
  have p1: "int (length d1) = M * N * block"
    using len1 Cons.prems(1) by simp
  have p2: "\<forall>u\<in>set us. 0 \<le> u \<and> u < M * N"
    using Cons.prems(2) by simp
  from Cons.IH [OF p1 p2] obtain d2 where r: "run_units ?lam us (Strs d1) = Some (Strs d2)"
    and len2: "length d2 = length d1"
    and mid2: "\<forall>v\<in>set us. d2 ! nat (v * block) = ?exp v"
    and out2: "\<forall>p<length d1. (\<forall>v\<in>set us. p \<noteq> nat (v * block)) \<longrightarrow> d2 ! p = d1 ! p"
    by blast
  have run: "run_units ?lam (u # us) (Strs dst) = Some (Strs d2)"
    using l r by simp
  have mid: "d2 ! nat (v * block) = ?exp v" if v: "v \<in> set (u # us)" for v
  proof (cases "\<exists>w\<in>set us. nat (v * block) = nat (w * block)")
    case True
    then obtain w where w: "w \<in> set us" "nat (v * block) = nat (w * block)"
      by blast
    have "0 \<le> v" "0 \<le> w"
      using v w(1) Cons.prems(2) by auto
    then have "0 \<le> v * block" "0 \<le> w * block"
      using assms(2) by simp_all
    then have "v * block = w * block"
      using w(2) by linarith
    then have "v = w"
      using assms(2) by simp
    then show ?thesis
      using mid2 w(1) by blast
  next
    case False
    then have vu: "v = u"
      using v by auto
    have "d2 ! nat (u * block) = d1 ! nat (u * block)"
      using out2 False slot len1 unfolding vu by simp
    also have "\<dots> = ?exp u"
      using slot by (simp add: d1_def)
    finally show ?thesis
      using vu by simp
  qed
  have out: "d2 ! p = dst ! p"
    if p: "p < length dst" and np: "\<forall>v\<in>set (u # us). p \<noteq> nat (v * block)" for p
  proof -
    have "d2 ! p = d1 ! p"
      using out2 p np len1 by simp
    also have "\<dots> = dst ! p"
      using np by (simp add: d1_def)
    finally show ?thesis .
  qed
  show ?case
    using run len1 len2 mid out by (intro exI [where x = d2]) simp
qed


lemma GatherCopyData_string:
  fixes M N dim block eb :: int
  assumes "0 \<le> ax" and "ax < int (length shp)" and "dim = shp ! nat ax"
    and "0 \<le> M" and "0 < block" and "0 < eb"
    and "int (length xs) = N" and "\<forall>x\<in>set xs. - dim \<le> x \<and> x < dim"
    and "int (length src) = M * dim * block" and "int (length dst) = M * N * block"
    and "M * dim * block * eb < 2 ^ 64" and "M * N * block * eb < 2 ^ 64"
    and "chunks_of (M * N) tp" and "M * N \<le> 2 ^ 31 - 1"
  shows "GatherCopyData (get_value xs) (Strs src) (Strs dst) True eb (block * eb) M N
           (dim * block * eb) (N * block * eb) shp ax tp
         = Some (OK, Strs (first_slots_output src dst xs dim N block))"
proof -
  let ?lam = "lambda (get_value xs) (Strs src) True eb (block * eb) N (dim * block * eb)
                (N * block * eb) dim"
  note v = get_value_valid [OF assms(7,8)]
  have c: "check_indices (get_value xs) N dim 0 = Some OK"
    using v by (simp add: check_indices_OK_iff)
  have us: "set (units_of tp) = {0..M * N - 1}"
    by (rule units_of_set [OF assms(13,14)])
  then have inr: "\<forall>u\<in>set (units_of tp). 0 \<le> u \<and> u < M * N"
    by simp
  from run_units_string [OF assms(4,5,6) v assms(9,11,12,10) inr]
  obtain dst' where r: "run_units ?lam (units_of tp) (Strs dst) = Some (Strs dst')"
    and len: "length dst' = length dst"
    and mid: "\<forall>u\<in>set (units_of tp). dst' ! nat (u * block)
                = src ! nat ((u div N * dim + spec_resolve dim (the (get_value xs (u mod N)))) * block)"
    and out: "\<forall>p<length dst. (\<forall>u\<in>set (units_of tp). p \<noteq> nat (u * block)) \<longrightarrow> dst' ! p = dst ! p"
    by blast
  have "dst' = first_slots_output src dst xs dim N block"
  proof (rule nth_equalityI)
    show "length dst' = length (first_slots_output src dst xs dim N block)"
      using len by (simp add: first_slots_output_def)
    fix n assume "n < length dst'"
    then have n: "n < length dst"
      using len by simp
    then have nb: "int n < M * N * block"
      using assms(10) by simp
    let ?u = "int n div block"
    show "dst' ! n = first_slots_output src dst xs dim N block ! n"
    proof (cases "int n mod block = 0")
      case True
      then have nu: "int n = ?u * block"
        by (simp add: mod_eq_0_iff_dvd)
      have u0: "0 \<le> ?u"
        using assms(5) by (simp add: pos_imp_zdiv_nonneg_iff)
      have "?u * block < M * N * block"
        using nb nu by simp
      then have u1: "?u < M * N"
        using assms(5) by (simp add: mult_less_cancel_right)
      have uin: "?u \<in> set (units_of tp)"
        using us u0 u1 by simp
      note ud = unit_decomposition [OF u0 u1 assms(4)]
      have g: "the (get_value xs (?u mod N)) = xs ! nat (?u mod N)"
        using ud(4,5) assms(7) by (simp add: get_value_def)
      have "dst' ! nat (?u * block)
            = src ! nat ((?u div N * dim + spec_resolve dim (xs ! nat (?u mod N))) * block)"
        using mid uin unfolding g [symmetric] by blast
      moreover have "nat (?u * block) = n"
        using nu by linarith
      ultimately show ?thesis
        using True n by (simp add: first_slots_output_def Let_def)
    next
      case False
      have "\<forall>u\<in>set (units_of tp). n \<noteq> nat (u * block)"
      proof (rule ballI, rule notI)
        fix u assume "u \<in> set (units_of tp)" and e: "n = nat (u * block)"
        then have "0 \<le> u" using inr by blast
        then have "int n = u * block"
          using e assms(5) by simp
        then have "int n mod block = 0" by simp
        with False show False by simp
      qed
      then have "dst' ! n = dst ! n"
        using out n by blast
      then show ?thesis
        using False n by (simp add: first_slots_output_def)
    qed
  qed
  with r have "TryParallelFor tp (M * N) (chunk_worker ?lam) (Strs dst)
               = Some (Strs (first_slots_output src dst xs dim N block))"
    by (simp add: TryParallelFor_units)
  then show ?thesis
    using assms(1,2) c unfolding GatherCopyData_def assms(3) by (simp add: Let_def)
qed


lemma Compute_string:
  assumes "- NumDimensions (Shape (Input0 ctx)) \<le> axis_attr k"
    and "axis_attr k < NumDimensions (Shape (Input0 ctx))"
    and "\<forall>d\<in>set (Shape (Input0 ctx)). 0 \<le> d"
    and "DataType (Input0 ctx) = String" and "Data (Input0 ctx) = Strs src"
    and "int (length src) = Size (Shape (Input0 ctx))"
    and "0 < block_of k ctx"
    and "index_values (Input1 ctx) = Some xs" and "int (length xs) = N_of ctx"
    and "\<forall>x\<in>set xs. - axis_dim_limit_of k ctx \<le> x \<and> x < axis_dim_limit_of k ctx"
    and "OutputBuf ctx = Strs dst"
    and "int (length dst) = M_of k ctx * N_of ctx * block_of k ctx"
    and "chunks_of (M_of k ctx * N_of ctx) (OperatorThreadPool ctx)"
    and "M_of k ctx * N_of ctx \<le> 2 ^ 31 - 1"
    and "Size (Shape (Input0 ctx)) * element_bytes_of ctx < 2 ^ 64"
    and "M_of k ctx * N_of ctx * block_of k ctx * element_bytes_of ctx < 2 ^ 64"
  shows "Compute k ctx =
           Some (OK, Strs (first_slots_output src dst xs (axis_dim_limit_of k ctx) (N_of ctx)
                             (block_of k ctx)))"
proof -
  let ?shp = "Shape (Input0 ctx)"
  let ?M = "M_of k ctx" and ?N = "N_of ctx" and ?dim = "axis_dim_limit_of k ctx"
  let ?block = "block_of k ctx" and ?eb = "element_bytes_of ctx"
  note a = axis_of_range [OF assms(1,2)]
  have n: "nat (axis_of k ctx) < length ?shp" and ia: "int (nat (axis_of k ctx)) = axis_of k ctx"
    using a by simp_all
  note sp = Size_split_axis [OF n, unfolded ia]
  have M0: "0 \<le> ?M"
    by (rule Compute_sizes_nonneg(1) [OF assms(3)])
  have eb: "0 < ?eb"
    by (simp add: element_bytes_of_def Size_of_pos)
  have bs: "block_size_of k ctx = ?block * ?eb"
    by (simp add: block_size_of_def block_of_def)
  have dbb: "data_batch_bytes_of k ctx = ?dim * ?block * ?eb"
    by (simp add: data_batch_bytes_of_def axis_dim_limit_of_def block_of_def sp(1))
  have gbb: "gathered_batch_bytes_of k ctx = ?N * ?block * ?eb"
    by (simp add: gathered_batch_bytes_of_def block_of_def)
  have sz: "Size ?shp = ?M * ?dim * ?block"
    by (simp add: M_of_def axis_dim_limit_of_def block_of_def sp(2))
  have ls: "int (length src) = ?M * ?dim * ?block"
    using assms(6) sz by simp
  have b1: "?M * ?dim * ?block * ?eb < 2 ^ 64"
    using assms(15) sz by simp
  have "Compute k ctx =
     GatherCopyData (get_value xs) (Strs src) (Strs dst) True ?eb (?block * ?eb) ?M ?N
       (?dim * ?block * ?eb) (?N * ?block * ?eb) ?shp (axis_of k ctx) (OperatorThreadPool ctx)"
    unfolding Compute_values [OF assms(1,2,8)] using assms(4,5,11) by (simp add: bs dbb gbb)
  also have "\<dots> = Some (OK, Strs (first_slots_output src dst xs ?dim ?N ?block))"
    by (rule GatherCopyData_string
        [OF a axis_dim_limit_of_def M0 assms(7) eb assms(9,10) ls assms(12) b1 assms(16,13,14)])
  finally show ?thesis .
qed

lemma first_slots_output_block_1:
  assumes "int (length dst) = M * N"
  shows "first_slots_output src dst xs dim N 1 = spec_output src xs dim M N 1"
proof (rule nth_equalityI)
  show "length (first_slots_output src dst xs dim N 1) = length (spec_output src xs dim M N 1)"
    using assms by (simp add: first_slots_output_def spec_output_def)
  fix n assume "n < length (first_slots_output src dst xs dim N 1)"
  then have n: "n < length dst"
    by (simp add: first_slots_output_def)
  then have "n < nat (M * N * 1)"
    using assms by simp
  then show "first_slots_output src dst xs dim N 1 ! n = spec_output src xs dim M N 1 ! n"
    using n by (simp add: first_slots_output_def spec_output_def spec_output_byte_def Let_def)
qed

lemma first_slots_output_unwritten:
  assumes "p < length dst" and "int p mod block \<noteq> 0"
  shows "first_slots_output src dst xs dim N block ! p = dst ! p"
  using assms by (simp add: first_slots_output_def)

end
